theory Spec2Isabelle
  imports Complex_Main
begin

section \<open>Python values used by converter.py\<close>

subsection \<open>Strings\<close>

text \<open>
  A Python \<open>str\<close> is a sequence of Unicode code points; \<open>len\<close>, slicing and
  \<open>replace\<close> count code points. A string is therefore a list of code points, and
  \<open>lit\<close> turns an ASCII literal of the source into such a list.
\<close>

type_synonym str = "nat list"

definition lit :: "string \<Rightarrow> str" where
  "lit cs = map of_char cs"

text \<open>
  \<open>str.isspace\<close> for one code point (\<open>Py_UNICODE_ISSPACE\<close>): the characters that
  \<open>str.strip()\<close> without argument removes.
\<close>

definition is_space :: "nat \<Rightarrow> bool" where
  "is_space c \<longleftrightarrow>
     (9 \<le> c \<and> c \<le> 13) \<or> (28 \<le> c \<and> c \<le> 32) \<or> c = 133 \<or> c = 160 \<or> c = 5760 \<or>
     (8192 \<le> c \<and> c \<le> 8202) \<or> c = 8232 \<or> c = 8233 \<or> c = 8239 \<or> c = 8287 \<or> c = 12288"

definition strip :: "str \<Rightarrow> str" where
  "strip t = rev (dropWhile is_space (rev (dropWhile is_space t)))"

text \<open>\<open>t.replace(old, new)\<close> for a one-character \<open>old\<close>.\<close>

definition replace :: "nat \<Rightarrow> str \<Rightarrow> str \<Rightarrow> str" where
  "replace old new t = concat (map (\<lambda>c. if c = old then new else [c]) t)"

text \<open>\<open>sep.join(xs)\<close>.\<close>

fun join :: "str \<Rightarrow> str list \<Rightarrow> str" where
  "join sep [] = []"
| "join sep [x] = x"
| "join sep (x # y # ys) = x @ sep @ join sep (y # ys)"

text \<open>\<open>sub in t\<close>: \<open>sub\<close> occurs in \<open>t\<close> as a contiguous substring.\<close>

fun starts_with :: "str \<Rightarrow> str \<Rightarrow> bool" where
  "starts_with [] t = True"
| "starts_with (c # cs) [] = False"
| "starts_with (c # cs) (d # ds) = (c = d \<and> starts_with cs ds)"

fun contains :: "str \<Rightarrow> str \<Rightarrow> bool" where
  "contains sub [] = (sub = [])"
| "contains sub (c # cs) = (starts_with sub (c # cs) \<or> contains sub cs)"

text \<open>\<open>t[i:j]\<close> for \<open>0 \<le> i \<le> j\<close>.\<close>

definition slice :: "str \<Rightarrow> nat \<Rightarrow> nat \<Rightarrow> str" where
  "slice t i j = take (j - i) (drop i t)"

subsection \<open>Exceptions\<close>

text \<open>
  Every exception that a call of \<open>revolut_to_mt940\<close> can raise. \<open>ValueError\<close> is raised
  at three places, told apart here by the constructor: the source's own
  \<open>raise ValueError\<close> for a CSV without rows, \<open>datetime.strptime\<close> on a string that is not
  a date, and \<open>range\<close> with step zero.
\<close>

datatype error =
    EmptyInputError      \<comment> \<open>\<open>ValueError\<close> raised by converter.py, line 27\<close>
  | DateParseError       \<comment> \<open>\<open>ValueError\<close> raised by \<open>datetime.strptime\<close>\<close>
  | RangeStepError       \<comment> \<open>\<open>ValueError\<close> raised by \<open>range(_, _, 0)\<close>\<close>
  | KeyError
  | TypeError
  | CsvError             \<comment> \<open>\<open>csv.Error\<close>\<close>
  | InvalidOperation     \<comment> \<open>\<open>decimal.InvalidOperation\<close>\<close>
  | Overflow             \<comment> \<open>\<open>decimal.Overflow\<close>\<close>

subsection \<open>Unicode tables\<close>

text \<open>
  Two tables of the Unicode database decide what \<open>str.upper\<close>, \<open>Decimal\<close>, \<open>int\<close> and the
  regular expression \<open>\d\<close> do with a code point outside ASCII. They are a parameter of
  the model: \<open>to_upper\<close> is the full upper-case mapping of one code point (it may give
  several code points), \<open>to_decimal\<close> the digit value of a decimal digit
  (\<open>Py_UNICODE_TODECIMAL\<close>). On ASCII both are written out below, and the tables are not
  consulted.
\<close>

record unicode =
  to_upper :: "nat \<Rightarrow> str"
  to_decimal :: "nat \<Rightarrow> nat option"

text \<open>
  The tables restricted to ASCII, where no code point outside ASCII has an upper-case
  mapping or a digit value. The concrete runs of this theory are on ASCII text, for which
  the result is the same with any tables.
\<close>

definition ascii_tables :: unicode where
  "ascii_tables = \<lparr>to_upper = (\<lambda>c. [c]), to_decimal = (\<lambda>c. None)\<rparr>"

definition upper :: "unicode \<Rightarrow> str \<Rightarrow> str" where
  "upper U t =
     concat (map (\<lambda>c. if c < 128 then [if 97 \<le> c \<and> c \<le> 122 then c - 32 else c]
                         else to_upper U c) t)"

definition ascii_lower :: "nat \<Rightarrow> nat" where
  "ascii_lower c = (if 65 \<le> c \<and> c \<le> 90 then c + 32 else c)"

definition is_ascii_digit :: "nat \<Rightarrow> bool" where
  "is_ascii_digit c \<longleftrightarrow> 48 \<le> c \<and> c \<le> 57"

definition decimal_digit :: "unicode \<Rightarrow> nat \<Rightarrow> nat option" where
  "decimal_digit U c =
     (if c < 128 then (if is_ascii_digit c then Some (c - 48) else None) else to_decimal U c)"

text \<open>The value of a digit sequence, most significant digit first, and back.\<close>

definition nat_of_digits :: "nat list \<Rightarrow> nat" where
  "nat_of_digits ds = foldl (\<lambda>a d. 10 * a + d) 0 ds"

fun digits_of :: "nat \<Rightarrow> nat list" where
  "digits_of n = (if n < 10 then [n] else digits_of (n div 10) @ [n mod 10])"

declare digits_of.simps [simp del]

definition ndigits :: "nat \<Rightarrow> nat" where
  "ndigits n = length (digits_of n)"

definition show_nat :: "nat \<Rightarrow> str" where
  "show_nat n = map (\<lambda>d. 48 + d) (digits_of n)"

text \<open>A number below 100 in two digits, as \<open>%02d\<close> prints it.\<close>

definition pad2 :: "nat \<Rightarrow> str" where
  "pad2 n = [48 + n div 10, 48 + n mod 10]"

subsection \<open>Decimal numbers\<close>

text \<open>
  \<open>decimal.Decimal\<close>: a finite number is a sign, a coefficient and an exponent, with value
  \<open>(-1)\<^sup>s\<^sub>i\<^sub>g\<^sub>n \<times> coefficient \<times> 10\<^sup>e\<^sup>x\<^sup>p\<close>; the other values are the two infinities and the quiet
  and signalling NaNs with their payload. The arithmetic context is the default one:
  precision 28, rounding \<open>ROUND_HALF_EVEN\<close>, \<open>Emax = 999999\<close>, \<open>Emin = -999999\<close>, no clamping,
  and the traps \<open>InvalidOperation\<close>, \<open>DivisionByZero\<close> and \<open>Overflow\<close> raise.
\<close>

datatype decimal =
    Finite bool nat int    \<comment> \<open>negative, coefficient, exponent\<close>
  | Infinity bool          \<comment> \<open>negative\<close>
  | NaN bool bool nat      \<comment> \<open>negative, signalling, payload\<close>

text \<open>The absolute value of the finite number with coefficient \<open>c\<close> and exponent \<open>e\<close>.\<close>

definition magnitude :: "nat \<Rightarrow> int \<Rightarrow> rat" where
  "magnitude c e = of_nat c * 10 powi e"

text \<open>The value of the finite number with the sign \<open>sg\<close>.\<close>

definition finite_value :: "bool \<Rightarrow> nat \<Rightarrow> int \<Rightarrow> rat" where
  "finite_value sg c e = (if sg then - magnitude c e else magnitude c e)"

definition prec :: nat where "prec = 28"
definition Emax :: int where "Emax = 999999"
definition Emin :: int where "Emin = - 999999"
definition Etiny :: int where "Etiny = Emin - (int prec - 1)"
definition Etop :: int where "Etop = Emax - (int prec - 1)"

text \<open>
  Dropping the last \<open>k\<close> digits of a coefficient with \<open>ROUND_HALF_EVEN\<close>: up when the
  dropped part is more than half a unit of the kept part, or exactly half and the kept
  part is odd.
\<close>

definition round_half_even :: "nat \<Rightarrow> nat \<Rightarrow> nat" where
  "round_half_even c k =
     (if k = 0 then c
      else let q = c div 10 ^ k; r = c mod 10 ^ k; half = 5 * 10 ^ (k - 1)
           in if r > half \<or> (r = half \<and> odd q) then q + 1 else q)"

text \<open>\<open>Decimal._rescale(new_exp, ROUND_HALF_EVEN)\<close> on the coefficient of a finite number.\<close>

definition rescale :: "nat \<Rightarrow> int \<Rightarrow> int \<Rightarrow> nat" where
  "rescale c e new_exp =
     (if c = 0 then 0
      else if e \<ge> new_exp then c * 10 ^ nat (e - new_exp)
      else round_half_even c (nat (new_exp - e)))"

text \<open>\<open>Decimal._fix_nan(context)\<close>: the payload of a NaN is cut to the precision.\<close>

definition fix_nan :: "decimal \<Rightarrow> decimal" where
  "fix_nan d = (case d of NaN sg sig p \<Rightarrow> NaN sg sig (p mod 10 ^ prec) | _ \<Rightarrow> d)"

text \<open>
  \<open>Decimal._fix(context)\<close>: the rounding to the context that ends every arithmetic
  operation. A zero gets its exponent clamped; a number beyond \<open>Emax\<close> raises \<open>Overflow\<close>;
  a coefficient of more than 28 digits, or a subnormal number, is rounded.
\<close>

definition dec_fix :: "decimal \<Rightarrow> error + decimal" where
  "dec_fix d =
     (case d of
        Finite sg c e \<Rightarrow>
          if c = 0 then Inr (Finite sg 0 (min (max e Etiny) Emax))
          else
            let exp_min = e + int (ndigits c) - int prec in
            if exp_min > Etop then Inl Overflow
            else
              let exp_min = (if exp_min < Etiny then Etiny else exp_min) in
              if e < exp_min then
                let coeff = round_half_even c (nat (exp_min - e)) in
                if ndigits coeff > prec then
                  (if exp_min + 1 > Etop then Inl Overflow
                   else Inr (Finite sg (coeff div 10) (exp_min + 1)))
                else Inr (Finite sg coeff exp_min)
              else Inr d
      | Infinity sg \<Rightarrow> Inr d
      | NaN sg sig p \<Rightarrow> Inr (fix_nan d))"

text \<open>
  \<open>amount < 0\<close>: an ordering comparison with a NaN signals \<open>InvalidOperation\<close>; a zero of
  either sign is not below zero.
\<close>

definition less_zero :: "decimal \<Rightarrow> error + bool" where
  "less_zero d =
     (case d of
        Finite sg c e \<Rightarrow> Inr (sg \<and> c \<noteq> 0)
      | Infinity sg \<Rightarrow> Inr sg
      | NaN sg sig p \<Rightarrow> Inl InvalidOperation)"

text \<open>
  \<open>Decimal._check_nans\<close>: a signalling NaN raises, a quiet one is the result of the
  operation; \<open>None\<close> when the operand is a number.
\<close>

definition check_nan :: "decimal \<Rightarrow> (error + decimal) option" where
  "check_nan d =
     (case d of
        NaN sg sig p \<Rightarrow> Some (if sig then Inl InvalidOperation else Inr (fix_nan d))
      | _ \<Rightarrow> None)"

text \<open>\<open>abs(amount)\<close>: the sign is cleared and the result rounded to the context.\<close>

definition dec_abs :: "decimal \<Rightarrow> error + decimal" where
  "dec_abs d =
     (case check_nan d of
        Some r \<Rightarrow> r
      | None \<Rightarrow>
          (case d of
             Finite sg c e \<Rightarrow> dec_fix (Finite False c e)
           | Infinity sg \<Rightarrow> Inr (Infinity False)
           | _ \<Rightarrow> Inr d))"

text \<open>
  \<open>d.quantize(Decimal("0.01"))\<close>: the number at exponent \<open>-2\<close>. It raises
  \<open>InvalidOperation\<close> on an infinity and when the result would need more than 28 digits.
\<close>

definition quantize2 :: "decimal \<Rightarrow> error + decimal" where
  "quantize2 d =
     (case check_nan d of
        Some r \<Rightarrow> r
      | None \<Rightarrow>
          (case d of
             Infinity sg \<Rightarrow> Inl InvalidOperation
           | Finite sg c e \<Rightarrow>
               if c = 0 then dec_fix (Finite sg 0 (- 2))
               else
                 let adjusted = e + int (ndigits c) - 1 in
                 if adjusted > Emax then Inl InvalidOperation
                 else if adjusted - (- 2) + 1 > int prec then Inl InvalidOperation
                 else
                   let coeff = rescale c e (- 2) in
                   if int (ndigits coeff) - 1 + (- 2) > Emax then Inl InvalidOperation
                   else if ndigits coeff > prec then Inl InvalidOperation
                   else dec_fix (Finite sg coeff (- 2))
           | _ \<Rightarrow> Inr d))"

text \<open>
  \<open>f"{q:.2f}"\<close>: a finite number is rescaled to two fractional digits and printed with a
  minus sign when its sign is set, at least one digit before the point and two after; a
  special value prints as its name.
\<close>

definition format_2f :: "decimal \<Rightarrow> str" where
  "format_2f d =
     (case d of
        Finite sg c e \<Rightarrow>
          (let coeff = rescale c e (- 2) in
           (if sg then [45] else []) @ show_nat (coeff div 100) @ [46] @ pad2 (coeff mod 100))
      | Infinity sg \<Rightarrow> (if sg then [45] else []) @ lit ''Infinity''
      | NaN sg sig p \<Rightarrow>
          (if sg then [45] else []) @ (if sig then lit ''sNaN'' else lit ''NaN'') @
          (if p = 0 then [] else show_nat p))"

text \<open>
  \<open>Decimal(s)\<close> for a string, as CPython's \<open>_decimal\<close> module does it on a 64-bit
  build. First the string is brought to ASCII (\<open>numeric_as_ascii\<close>): white space is
  trimmed at both ends, underscores are skipped, a decimal digit of any script becomes
  the ASCII digit and white space inside becomes a space; any other code point outside
  ASCII, and NUL, make the string invalid.
\<close>

definition ascii_of :: "unicode \<Rightarrow> nat \<Rightarrow> nat option" where
  "ascii_of U c =
     (if 0 < c \<and> c \<le> 127 then Some c
      else if is_space c then Some 32
      else map_option (\<lambda>d. 48 + d) (decimal_digit U c))"

definition numeric_as_ascii :: "unicode \<Rightarrow> str \<Rightarrow> str option" where
  "numeric_as_ascii U t = those (map (ascii_of U) (filter (\<lambda>c. c \<noteq> 95) (strip t)))"

text \<open>
  Then the ASCII string is read (\<open>mpd_qset_string\<close>): an optional sign, then \<open>nan\<close> or
  \<open>snan\<close> with an optional payload of digits, or \<open>inf\<close> or \<open>infinity\<close>, in any mix of
  cases, or a number: digits with at most one point among them and at least one digit,
  then optionally \<open>e\<close> or \<open>E\<close>, an optional sign and at least one digit.
\<close>

definition split_sign :: "str \<Rightarrow> bool \<times> str" where
  "split_sign t =
     (case t of
        [] \<Rightarrow> (False, [])
      | c # cs \<Rightarrow> if c = 43 then (False, cs) else if c = 45 then (True, cs) else (False, t))"

definition all_digits :: "str \<Rightarrow> bool" where
  "all_digits t = list_all is_ascii_digit t"

definition digits_value :: "str \<Rightarrow> nat" where
  "digits_value t = nat_of_digits (map (\<lambda>c. c - 48) t)"

definition is_e :: "nat \<Rightarrow> bool" where
  "is_e c \<longleftrightarrow> c = 101 \<or> c = 69"

text \<open>The exponent part after \<open>e\<close>: \<open>None\<close> when it is not a signed integer.\<close>

definition parse_exponent :: "str \<Rightarrow> int option" where
  "parse_exponent t =
     (let (neg, ds) = split_sign t in
      if ds \<noteq> [] \<and> all_digits ds
      then Some (if neg then - int (digits_value ds) else int (digits_value ds))
      else None)"

text \<open>
  The limits of the exact conversion (\<open>mpd_maxcontext\<close>, 64-bit): a number whose adjusted
  exponent is above \<open>MPD_MAX_EMAX\<close> or whose exponent is below the smallest subnormal
  exponent would be rounded or clamped, which the constructor reports as
  \<open>InvalidOperation\<close>.
\<close>

definition MAX_EMAX :: int where "MAX_EMAX = 999999999999999999"
definition MAX_ETINY :: int where "MAX_ETINY = - 1999999999999999997"

definition exact_in_maxcontext :: "nat \<Rightarrow> int \<Rightarrow> bool" where
  "exact_in_maxcontext c e \<longleftrightarrow> e + int (ndigits c) - 1 \<le> MAX_EMAX \<and> MAX_ETINY \<le> e"

definition parse_number :: "bool \<Rightarrow> str \<Rightarrow> decimal option" where
  "parse_number sg t =
     (let mant = takeWhile (\<lambda>c. \<not> is_e c) t;
          after = dropWhile (\<lambda>c. \<not> is_e c) t;
          ip = takeWhile (\<lambda>c. c \<noteq> 46) mant;
          fp = dropWhile (\<lambda>c. c \<noteq> 46) mant;
          frac = (if fp = [] then [] else tl fp)
      in if all_digits ip \<and> all_digits frac \<and> ip @ frac \<noteq> [] then
           (case (if after = [] then Some 0 else parse_exponent (tl after)) of
              None \<Rightarrow> None
            | Some ex \<Rightarrow>
                let c = digits_value (ip @ frac); e = ex - int (length frac)
                in if exact_in_maxcontext c e then Some (Finite sg c e) else None)
         else None)"

definition parse_payload :: "bool \<Rightarrow> bool \<Rightarrow> str \<Rightarrow> decimal option" where
  "parse_payload sg sig t = (if all_digits t then Some (NaN sg sig (digits_value t)) else None)"

definition decimal_of_ascii :: "str \<Rightarrow> decimal option" where
  "decimal_of_ascii t =
     (let (sg, r) = split_sign t in
      if map ascii_lower (take 3 r) = lit ''nan'' then parse_payload sg False (drop 3 r)
      else if map ascii_lower (take 4 r) = lit ''snan'' then parse_payload sg True (drop 4 r)
      else if map ascii_lower (take 3 r) = lit ''inf'' then
        (if drop 3 r = [] \<or> map ascii_lower (drop 3 r) = lit ''inity''
         then Some (Infinity sg) else None)
      else parse_number sg r)"

text \<open>
  \<open>Decimal(s)\<close>: \<open>None\<close> stands for the \<open>InvalidOperation\<close> that the constructor raises on
  a string that is not a number.
\<close>

definition Decimal :: "unicode \<Rightarrow> str \<Rightarrow> decimal option" where
  "Decimal U t =
     (case numeric_as_ascii U t of None \<Rightarrow> None | Some a \<Rightarrow> decimal_of_ascii a)"

subsection \<open>Dates\<close>

text \<open>
  \<open>datetime.strptime(s, "%Y-%m-%d")\<close>. The format becomes the regular expression
  \<open>(\d\d\d\d)-(1[0-2]|0[1-9]|[1-9])-(3[0-1]|[1-2]\d|0[1-9]|[1-9]| [1-9])\<close>, matched at the
  start of the string; the match must end where the string ends. \<open>\d\<close> is a decimal digit
  of any script, and \<open>int\<close> reads it. The three numbers must then form a date of the
  calendar, with a year from 1 on.
\<close>

record date =
  year :: nat
  month :: nat
  day :: nat

definition isleap :: "nat \<Rightarrow> bool" where
  "isleap y \<longleftrightarrow> y mod 4 = 0 \<and> (y mod 100 \<noteq> 0 \<or> y mod 400 = 0)"

text \<open>\<open>calendar.monthrange(y, m)[1]\<close>, for a month from 1 to 12.\<close>

definition days_in_month :: "nat \<Rightarrow> nat \<Rightarrow> nat" where
  "days_in_month y m =
     (if m = 2 then (if isleap y then 29 else 28)
      else if m = 4 \<or> m = 6 \<or> m = 9 \<or> m = 11 then 30 else 31)"

definition in_range :: "nat \<Rightarrow> nat \<Rightarrow> nat \<Rightarrow> bool" where
  "in_range lo hi c \<longleftrightarrow> lo \<le> c \<and> c \<le> hi"

text \<open>The group \<open>%m\<close>: the text between the two hyphens.\<close>

definition match_month :: "str \<Rightarrow> nat option" where
  "match_month t =
     (case t of
        [c] \<Rightarrow> if in_range 49 57 c then Some (c - 48) else None
      | [c, d] \<Rightarrow>
          if c = 49 \<and> in_range 48 50 d then Some (10 + (d - 48))
          else if c = 48 \<and> in_range 49 57 d then Some (d - 48)
          else None
      | _ \<Rightarrow> None)"

text \<open>
  The group \<open>%d\<close>, the last of the expression: the first alternative that matches a
  prefix is taken, and the match is refused unless that prefix is the whole rest.
\<close>

definition match_day :: "unicode \<Rightarrow> str \<Rightarrow> nat option" where
  "match_day U t =
     (case t of
        [c] \<Rightarrow> if in_range 49 57 c then Some (c - 48) else None
      | [c, d] \<Rightarrow>
          if c = 51 \<and> in_range 48 49 d then Some (30 + (d - 48))
          else if in_range 49 50 c \<and> decimal_digit U d \<noteq> None
            then Some (10 * (c - 48) + the (decimal_digit U d))
          else if c = 48 \<and> in_range 49 57 d then Some (d - 48)
          else if c = 32 \<and> in_range 49 57 d then Some (d - 48)
          else None
      | _ \<Rightarrow> None)"

definition match_year :: "unicode \<Rightarrow> str \<Rightarrow> nat option" where
  "match_year U t =
     (if length t = 4 then map_option nat_of_digits (those (map (decimal_digit U) t)) else None)"

definition strptime :: "unicode \<Rightarrow> str \<Rightarrow> error + date" where
  "strptime U t =
     (let rest = drop 5 t;
          m = takeWhile (\<lambda>c. c \<noteq> 45) rest;
          after = dropWhile (\<lambda>c. c \<noteq> 45) rest
      in if 5 \<le> length t \<and> t ! 4 = 45 \<and> after \<noteq> [] then
           (case (match_year U (take 4 t), match_month m, match_day U (tl after)) of
              (Some y, Some m, Some d) \<Rightarrow>
                if 1 \<le> y \<and> d \<le> days_in_month y m
                then Inr \<lparr>year = y, month = m, day = d\<rparr>
                else Inl DateParseError
            | _ \<Rightarrow> Inl DateParseError)
         else Inl DateParseError)"

text \<open>\<open>d.strftime("%y%m%d")\<close> and \<open>d.strftime("%m%d")\<close>.\<close>

definition strftime_yymmdd :: "date \<Rightarrow> str" where
  "strftime_yymmdd d = pad2 (year d mod 100) @ pad2 (month d) @ pad2 (day d)"

definition strftime_mmdd :: "date \<Rightarrow> str" where
  "strftime_mmdd d = pad2 (month d) @ pad2 (day d)"

subsection \<open>The csv module\<close>

text \<open>
  \<open>io.StringIO(text)\<close> iterated: its lines, each with the newline that ends it.
  \<open>StringIO\<close> does not translate line ends, so only \<open>\n\<close> ends a line.
\<close>

fun readlines :: "str \<Rightarrow> str \<Rightarrow> str list" where
  "readlines cur [] = (if cur = [] then [] else [cur])"
| "readlines cur (c # cs) =
     (if c = 10 then (cur @ [c]) # readlines [] cs else readlines (cur @ [c]) cs)"

text \<open>
  \<open>csv.reader\<close> with the dialect \<open>excel\<close>: delimiter comma, quote character \<open>"\<close>,
  doubled quotes, no escape character, not strict. The reader is the state machine of
  \<open>_csv.c\<close>; the three states that only an escape character reaches are left out.
  The list \<open>fields\<close> of the reader is written \<open>fields'\<close> here. A NUL character is a
  character like any other, as it is from Python 3.11 on.
\<close>

datatype parser_state =
  START_RECORD | START_FIELD | IN_FIELD | IN_QUOTED_FIELD | QUOTE_IN_QUOTED_FIELD | EAT_CRNL

record reader =
  state :: parser_state
  fields' :: "str list"
  field :: str

definition field_limit :: nat where
  "field_limit = 131072"

definition parse_reset :: reader where
  "parse_reset = \<lparr>state = START_RECORD, fields' = [], field = []\<rparr>"

definition parse_save_field :: "reader \<Rightarrow> reader" where
  "parse_save_field r = r\<lparr>fields' := fields' r @ [field r], field := []\<rparr>"

definition parse_add_char :: "reader \<Rightarrow> nat \<Rightarrow> error + reader" where
  "parse_add_char r c =
     (if length (field r) \<ge> field_limit then Inl CsvError
      else Inr (r\<lparr>field := field r @ [c]\<rparr>))"

text \<open>
  One step of the machine, on a character of the line or on the end-of-line signal that
  the reader feeds after the last character of each line.
\<close>

datatype symbol = Ch nat | EOL

definition is_newline :: "nat \<Rightarrow> bool" where
  "is_newline c \<longleftrightarrow> c = 10 \<or> c = 13"

definition set_state :: "parser_state \<Rightarrow> error + reader \<Rightarrow> error + reader" where
  "set_state s x = (case x of Inl e \<Rightarrow> Inl e | Inr r \<Rightarrow> Inr (r\<lparr>state := s\<rparr>))"

definition process_start_field :: "reader \<Rightarrow> symbol \<Rightarrow> error + reader" where
  "process_start_field r c =
     (case c of
        EOL \<Rightarrow> Inr ((parse_save_field r)\<lparr>state := START_RECORD\<rparr>)
      | Ch k \<Rightarrow>
          if is_newline k then Inr ((parse_save_field r)\<lparr>state := EAT_CRNL\<rparr>)
          else if k = 34 then Inr (r\<lparr>state := IN_QUOTED_FIELD\<rparr>)
          else if k = 44 then Inr (parse_save_field r)
          else set_state IN_FIELD (parse_add_char r k))"

definition parse_process_char :: "reader \<Rightarrow> symbol \<Rightarrow> error + reader" where
  "parse_process_char r c =
     (case state r of
        START_RECORD \<Rightarrow>
          (case c of
             EOL \<Rightarrow> Inr r
           | Ch k \<Rightarrow>
               if is_newline k then Inr (r\<lparr>state := EAT_CRNL\<rparr>)
               else process_start_field (r\<lparr>state := START_FIELD\<rparr>) c)
      | START_FIELD \<Rightarrow> process_start_field r c
      | IN_FIELD \<Rightarrow>
          (case c of
             EOL \<Rightarrow> Inr ((parse_save_field r)\<lparr>state := START_RECORD\<rparr>)
           | Ch k \<Rightarrow>
               if is_newline k then Inr ((parse_save_field r)\<lparr>state := EAT_CRNL\<rparr>)
               else if k = 44 then Inr ((parse_save_field r)\<lparr>state := START_FIELD\<rparr>)
               else parse_add_char r k)
      | IN_QUOTED_FIELD \<Rightarrow>
          (case c of
             EOL \<Rightarrow> Inr r
           | Ch k \<Rightarrow>
               if k = 34 then Inr (r\<lparr>state := QUOTE_IN_QUOTED_FIELD\<rparr>)
               else parse_add_char r k)
      | QUOTE_IN_QUOTED_FIELD \<Rightarrow>
          (case c of
             EOL \<Rightarrow> Inr ((parse_save_field r)\<lparr>state := START_RECORD\<rparr>)
           | Ch k \<Rightarrow>
               if k = 34 then set_state IN_QUOTED_FIELD (parse_add_char r k)
               else if k = 44 then Inr ((parse_save_field r)\<lparr>state := START_FIELD\<rparr>)
               else if is_newline k then Inr ((parse_save_field r)\<lparr>state := EAT_CRNL\<rparr>)
               else set_state IN_FIELD (parse_add_char r k))
      | EAT_CRNL \<Rightarrow>
          (case c of
             EOL \<Rightarrow> Inr (r\<lparr>state := START_RECORD\<rparr>)
           | Ch k \<Rightarrow> if is_newline k then Inr r else Inl CsvError))"

text \<open>The characters of one line, then the end-of-line signal.\<close>

fun process_line :: "reader \<Rightarrow> str \<Rightarrow> error + reader" where
  "process_line r [] = parse_process_char r EOL"
| "process_line r (c # cs) =
     (case parse_process_char r (Ch c) of
        Inl e \<Rightarrow> Inl e
      | Inr r' \<Rightarrow> process_line r' cs)"

text \<open>
  \<open>Reader_iternext\<close>, called until the input ends: every record of the remaining lines.
  A record takes lines until the machine is back in \<open>START_RECORD\<close>; when the input
  ends inside a quoted field, or with characters collected, the open field is saved and
  the record returned.
\<close>

fun reader_records :: "reader \<Rightarrow> str list \<Rightarrow> error + str list list" where
  "reader_records r [] =
     (if field r \<noteq> [] \<or> state r = IN_QUOTED_FIELD
      then Inr [fields' (parse_save_field r)] else Inr [])"
| "reader_records r (l # ls) =
     (case process_line r l of
        Inl e \<Rightarrow> Inl e
      | Inr r' \<Rightarrow>
          if state r' = START_RECORD
          then (case reader_records parse_reset ls of
                  Inl e \<Rightarrow> Inl e
                | Inr recs \<Rightarrow> Inr (fields' r' # recs))
          else reader_records r' ls)"

definition csv_reader :: "str \<Rightarrow> error + str list list" where
  "csv_reader text = reader_records parse_reset (readlines [] text)"

text \<open>
  A row of \<open>csv.DictReader\<close>: a \<open>dict\<close> whose keys are the field names, with the value
  \<open>None\<close> where the row is too short, and the key \<open>None\<close> (\<open>restkey\<close>) for the fields
  beyond the header of a row that is too long. The field names are strings, so the two
  kinds of key are kept apart: \<open>named\<close> holds the entries under a string, \<open>rest\<close> the
  entry under \<open>None\<close>.
\<close>

record row =
  named :: "str \<rightharpoonup> str option"
  rest :: "str list option"

text \<open>
  \<open>dict(zip(fieldnames, row))\<close>, then the entries for a long or a short row; a name that
  occurs twice keeps the value stored last.
\<close>

definition make_row :: "str list \<Rightarrow> str list \<Rightarrow> row" where
  "make_row fieldnames r =
     (let d = foldl (\<lambda>d (k, v). d(k \<mapsto> Some v)) Map.empty (zip fieldnames r);
          lf = length fieldnames;
          lr = length r
      in if lf < lr then \<lparr>named = d, rest = Some (drop lf r)\<rparr>
         else \<lparr>named = foldl (\<lambda>d k. d(k \<mapsto> None)) d (drop lr fieldnames), rest = None\<rparr>)"

text \<open>
  \<open>list(csv.DictReader(io.StringIO(text)))\<close>: the first record, empty or not, gives the
  field names; of the others the empty ones are skipped.
\<close>

definition DictReader :: "str \<Rightarrow> error + row list" where
  "DictReader text =
     (case csv_reader text of
        Inl e \<Rightarrow> Inl e
      | Inr [] \<Rightarrow> Inr []
      | Inr (fieldnames # recs) \<Rightarrow>
          Inr (map (make_row fieldnames) (filter (\<lambda>r. r \<noteq> []) recs)))"

text \<open>\<open>d.get(k)\<close>, \<open>d.get(k, default)\<close> and \<open>d[k]\<close>.\<close>

definition get :: "row \<Rightarrow> str \<Rightarrow> str option" where
  "get d k = (case named d k of None \<Rightarrow> None | Some v \<Rightarrow> v)"

definition get_default :: "row \<Rightarrow> str \<Rightarrow> str \<Rightarrow> str option" where
  "get_default d k dflt = (case named d k of None \<Rightarrow> Some dflt | Some v \<Rightarrow> v)"

definition getitem :: "row \<Rightarrow> str \<Rightarrow> error + str option" where
  "getitem d k = (case named d k of None \<Rightarrow> Inl KeyError | Some v \<Rightarrow> Inr v)"

text \<open>
  \<open>x or y\<close> where \<open>x\<close> is a string or \<open>None\<close>: \<open>x\<close> when it is a non-empty string,
  else \<open>y\<close>; \<open>or_str\<close> is the case that \<open>y\<close> is a string.
\<close>

definition truthy :: "str option \<Rightarrow> bool" where
  "truthy x \<longleftrightarrow> x \<noteq> None \<and> x \<noteq> Some []"

definition py_or :: "str option \<Rightarrow> str option \<Rightarrow> str option" where
  "py_or x y = (if truthy x then x else y)"

definition or_str :: "str option \<Rightarrow> str \<Rightarrow> str" where
  "or_str x y = (case x of Some (c # cs) \<Rightarrow> c # cs | _ \<Rightarrow> y)"

section \<open>converter.py\<close>

text \<open>Sequencing of calls that may raise: the first exception ends the computation.\<close>

definition bind :: "error + 'a \<Rightarrow> ('a \<Rightarrow> error + 'b) \<Rightarrow> error + 'b" where
  "bind x f = (case x of Inl e \<Rightarrow> Inl e | Inr v \<Rightarrow> f v)"

text \<open>\<open>_fmt_amount(amount)\<close>.\<close>

definition fmt_amount :: "decimal \<Rightarrow> error + str" where
  "fmt_amount amount =
     bind (quantize2 amount) (\<lambda>q.
       let s = format_2f q in
       Inr (replace 46 [44] s))"

text \<open>\<open>range(0, stop, step)\<close> for a positive step.\<close>

definition range_step :: "nat \<Rightarrow> nat \<Rightarrow> nat list" where
  "range_step stop step = map (\<lambda>k. k * step) [0 ..< (stop + step - 1) div step]"

text \<open>
  \<open>_split_text_chunks(text, chunk_len)\<close>. The conditional expression tests \<open>text\<close>
  first, so the empty text gives \<open>[]\<close> whatever \<open>chunk_len\<close> is; otherwise a zero
  step makes \<open>range\<close> raise and a negative one gives the empty range.
\<close>

definition split_text_chunks :: "str \<Rightarrow> int \<Rightarrow> error + str list" where
  "split_text_chunks text chunk_len =
     (let text = strip (replace 10 [32] (replace 13 [32] text)) in
      if text = [] then Inr []
      else if chunk_len = 0 then Inl RangeStepError
      else if chunk_len < 0 then Inr []
      else Inr (map (\<lambda>i. slice text i (i + nat chunk_len))
                    (range_step (length text) (nat chunk_len))))"

text \<open>The nested helpers of \<open>revolut_to_mt940\<close>. An argument can be \<open>None\<close>.\<close>

definition parse_decimal :: "unicode \<Rightarrow> str option \<Rightarrow> decimal" where
  "parse_decimal U v =
     (case v of
        None \<Rightarrow> Finite False 0 0
      | Some t \<Rightarrow>
          if t = [] then Finite False 0 0
          else (case Decimal U (replace 44 [46] t) of
                  None \<Rightarrow> Finite False 0 0
                | Some d \<Rightarrow> d))"

definition fmt_yyMMdd :: "unicode \<Rightarrow> str option \<Rightarrow> error + str" where
  "fmt_yyMMdd U date_str =
     (case date_str of
        None \<Rightarrow> Inl TypeError
      | Some t \<Rightarrow> bind (strptime U t) (\<lambda>d. Inr (strftime_yymmdd d)))"

definition fmt_MMDD :: "unicode \<Rightarrow> str option \<Rightarrow> error + str" where
  "fmt_MMDD U date_str =
     (case date_str of
        None \<Rightarrow> Inl TypeError
      | Some t \<Rightarrow> bind (strptime U t) (\<lambda>d. Inr (strftime_mmdd d)))"

text \<open>
  The body of the loop over the transactions: the lines that one pass appends to
  \<open>lines\<close>, in the order of the \<open>append\<close> calls.
\<close>

definition tx_lines :: "unicode \<Rightarrow> row \<Rightarrow> str \<Rightarrow> row \<Rightarrow> error + str list" where
  "tx_lines U first_row currency tx =
     (let date_completed = py_or (get tx (lit ''Date completed (UTC)''))
                                 (get tx (lit ''Date started (UTC)'')) in
      bind (if \<not> truthy date_completed then getitem first_row (lit ''Date completed (UTC)'')
            else Inr date_completed) (\<lambda>date_completed.
      bind (fmt_yyMMdd U date_completed) (\<lambda>val_date.
      bind (fmt_MMDD U date_completed) (\<lambda>entry_md.
      let tx_id = strip (replace 45 [] (or_str (get tx (lit ''ID'')) []));
          amount = parse_decimal U
                     (Some (or_str (py_or (get tx (lit ''Amount'')) (get tx (lit ''Orig amount'')))
                                   (lit ''0''))) in
      bind (less_zero amount) (\<lambda>negative.
      let direction = (if negative then lit ''D'' else lit ''C'') in
      bind (dec_abs amount) (\<lambda>amount_abs.
      bind (fmt_amount amount_abs) (\<lambda>amount_str.
      let tx_type = upper U (or_str (get tx (lit ''Type'')) []);
          code_num = (if contains (lit ''FEE'') tx_type then lit ''49'' else lit ''119'');
          lines = [lit '':61:'' @ val_date @ entry_md @ direction @ amount_str @ lit ''N'' @
                     code_num @ lit ''NONREF//'' @ tx_id,
                   code_num @ lit '' 0'',
                   lit '':86:020~00'' @ code_num];
          reference = strip (or_str (get tx (lit ''Reference'')) []);
          lines = (if reference \<noteq> [] then lines @ [lit ''~20'' @ reference] else lines);
          description = strip (or_str (get tx (lit ''Description'')) []) in
      bind (split_text_chunks description 35) (\<lambda>desc_chunks.
      let lines = (if desc_chunks \<noteq> [] then
                     (let lines = (if length desc_chunks \<ge> 1
                                   then lines @ [lit ''~32'' @ desc_chunks ! 0] else lines);
                          lines = (if length desc_chunks \<ge> 2
                                   then lines @ [lit ''~33'' @ desc_chunks ! 1] else lines)
                      in if length desc_chunks > 2
                         then (let rem = join [] (drop 2 desc_chunks)
                               in lines @ [lit ''~38'' @ rem])
                         else lines)
                   else lines);
          ben_iban = strip (or_str (get tx (lit ''Beneficiary IBAN'')) []);
          lines = (if ben_iban \<noteq> [] then
                     (let ben_iban_norm = replace 32 [] ben_iban
                      in lines @ [lit ''~38'' @ ben_iban_norm])
                   else lines);
          symbol = (if currency = lit ''EUR'' then [8364] else currency)
      in Inr (lines @ [lit ''~60'' @ symbol, lit ''~63'' @ symbol])))))))))"

text \<open>\<open>for tx in ...\<close>: the passes in turn, stopping at the first exception.\<close>

fun tx_loop :: "unicode \<Rightarrow> row \<Rightarrow> str \<Rightarrow> str list \<Rightarrow> row list \<Rightarrow> error + str list" where
  "tx_loop U first_row currency lines [] = Inr lines"
| "tx_loop U first_row currency lines (tx # txs) =
     bind (tx_lines U first_row currency tx) (\<lambda>block.
       tx_loop U first_row currency (lines @ block) txs)"

text \<open>
  \<open>revolut_to_mt940(csv_content, iban)\<close> from the parsed rows on: the statement for a
  non-empty list of rows.
\<close>

definition statement_lines :: "unicode \<Rightarrow> row list \<Rightarrow> str \<Rightarrow> error + str list" where
  "statement_lines U rows iban =
     (let iban_norm = replace 32 [] iban;
          currency = upper U (strip (or_str (py_or (get (hd rows) (lit ''Payment currency''))
                                                   (get (last rows) (lit ''Payment currency'')))
                                            (lit ''EUR'')));
          first_row = last rows;
          last_row = hd rows in
      bind (getitem first_row (lit ''Date completed (UTC)'')) (\<lambda>first_date.
      bind (fmt_yyMMdd U first_date) (\<lambda>opening_date.
      let opening_balance = parse_decimal U (get_default first_row (lit ''Balance'') (lit ''0'')) in
      bind (getitem last_row (lit ''Date completed (UTC)'')) (\<lambda>last_date.
      bind (fmt_yyMMdd U last_date) (\<lambda>closing_date.
      let closing_balance = parse_decimal U (get_default last_row (lit ''Balance'') (lit ''0'')) in
      bind (case first_date of None \<Rightarrow> Inl TypeError | Some t \<Rightarrow> strptime U t) (\<lambda>od.
      let last_day = days_in_month (year od) (month od);
          available_dt = od\<lparr>day := last_day\<rparr>;
          available_date = strftime_yymmdd available_dt in
      bind (fmt_amount opening_balance) (\<lambda>opening_str.
      let lines = [lit '':20:MT940'',
                   lit '':25:/'' @ iban_norm,
                   lit '':28C:1'',
                   lit '':60F:C'' @ opening_date @ currency @ opening_str] in
      bind (tx_loop U first_row currency lines (rev rows)) (\<lambda>lines.
      bind (fmt_amount closing_balance) (\<lambda>closing_str.
      Inr (lines @ [lit '':62F:C'' @ closing_date @ currency @ closing_str,
                    lit '':64:C'' @ available_date @ currency @ closing_str,
                    lit ''-'']))))))))))"

definition revolut_to_mt940 :: "unicode \<Rightarrow> str \<Rightarrow> str \<Rightarrow> error + str" where
  "revolut_to_mt940 U csv_content iban =
     bind (DictReader csv_content) (\<lambda>rows.
       if rows = [] then Inl EmptyInputError
       else bind (statement_lines U rows iban) (\<lambda>lines. Inr (join [10] lines)))"

section \<open>Properties\<close>

subsection \<open>Definitions to unfold in concrete runs\<close>

lemmas str_defs = lit_def is_space_def strip_def replace_def slice_def upper_def ascii_lower_def
  is_ascii_digit_def decimal_digit_def nat_of_digits_def ndigits_def show_nat_def pad2_def
  ascii_tables_def

lemmas dec_defs = prec_def Emax_def Emin_def Etiny_def Etop_def round_half_even_def rescale_def
  fix_nan_def dec_fix_def less_zero_def check_nan_def dec_abs_def quantize2_def format_2f_def
  ascii_of_def numeric_as_ascii_def split_sign_def all_digits_def digits_value_def is_e_def
  parse_exponent_def MAX_EMAX_def MAX_ETINY_def exact_in_maxcontext_def parse_number_def
  parse_payload_def decimal_of_ascii_def Decimal_def

lemmas date_defs = isleap_def days_in_month_def in_range_def match_month_def match_day_def
  match_year_def strptime_def strftime_yymmdd_def strftime_mmdd_def

lemmas csv_defs = field_limit_def parse_reset_def parse_save_field_def parse_add_char_def
  is_newline_def set_state_def process_start_field_def parse_process_char_def csv_reader_def
  make_row_def DictReader_def get_def get_default_def getitem_def truthy_def py_or_def or_str_def

lemmas conv_defs = bind_def fmt_amount_def range_step_def split_text_chunks_def parse_decimal_def
  fmt_yyMMdd_def fmt_MMDD_def tx_lines_def statement_lines_def revolut_to_mt940_def

lemmas run_defs = str_defs dec_defs date_defs csv_defs conv_defs digits_of.simps upt_rec Let_def

subsection \<open>Sequencing and strings\<close>

lemma bind_Inr [simp]: "bind (Inr v) f = f v"
  by (simp add: bind_def)

lemma bind_Inl [simp]: "bind (Inl e) f = Inl e"
  by (simp add: bind_def)

lemma bind_eq_Inr: "bind x f = Inr y \<longleftrightarrow> (\<exists>v. x = Inr v \<and> f v = Inr y)"
  by (cases x) simp_all

lemma join_snoc: "xs \<noteq> [] \<Longrightarrow> join sep (xs @ [y]) = join sep xs @ sep @ y"
  by (induction sep xs rule: join.induct) auto

lemma join_empty_sep: "join [] xs = concat xs"
  by (induction "[] :: str" xs rule: join.induct) auto

lemma replace_remove: "replace c [] t = filter (\<lambda>x. x \<noteq> c) t"
  by (induction t) (auto simp: replace_def)

lemma if_snoc: "(if b then L @ [x] else L) = L @ (if b then [x] else [])"
  by simp

lemma replace_append: "replace c new (a @ b) = replace c new a @ replace c new b"
  by (simp add: replace_def)

lemma replace_Cons: "replace c new (x # t) = (if x = c then new else [x]) @ replace c new t"
  by (simp add: replace_def)

lemma replace_Nil: "replace c new [] = []"
  by (simp add: replace_def)

lemma replace_absent: "c \<notin> set t \<Longrightarrow> replace c new t = t"
  by (induction t) (auto simp: replace_def)

subsection \<open>Digits and decimal numbers\<close>

lemma digits_of_range: "d \<in> set (digits_of n) \<Longrightarrow> d < 10"
proof (induction n arbitrary: d rule: digits_of.induct)
  case (1 n)
  show ?case
  proof (cases "n < 10")
    case True
    with "1.prems" show ?thesis by (simp add: digits_of.simps [of n])
  next
    case False
    with "1.prems" have "d \<in> set (digits_of (n div 10)) \<or> d = n mod 10"
      by (subst (asm) digits_of.simps) auto
    with False "1.IH" show ?thesis by auto
  qed
qed

lemma ndigits_pos: "1 \<le> ndigits n"
  unfolding ndigits_def by (subst digits_of.simps) simp

lemma show_nat_digits: "c \<in> set (show_nat n) \<Longrightarrow> is_ascii_digit c"
  by (auto simp: show_nat_def is_ascii_digit_def dest: digits_of_range)

lemma pad2_digits: "n < 100 \<Longrightarrow> c \<in> set (pad2 n) \<Longrightarrow> is_ascii_digit c"
  by (auto simp: pad2_def is_ascii_digit_def)

lemma dec_fix_exp2:
  assumes "ndigits n \<le> prec"
  shows "dec_fix (Finite sg n (- 2)) = Inr (Finite sg n (- 2))"
  using assms ndigits_pos [of n]
  by (auto simp: dec_fix_def Let_def Etop_def Etiny_def Emax_def Emin_def prec_def)

lemma quantize2_Finite:
  assumes "quantize2 (Finite sg c e) = Inr q"
  shows "q = Finite sg (rescale c e (- 2)) (- 2)"
proof (cases "c = 0")
  case True
  have "ndigits 0 \<le> prec" by (simp add: ndigits_def digits_of.simps prec_def)
  with True assms show ?thesis
    by (simp add: quantize2_def check_nan_def rescale_def dec_fix_exp2)
next
  case False
  with assms have "ndigits (rescale c e (- 2)) \<le> prec" and "dec_fix (Finite sg (rescale c e (- 2)) (- 2)) = Inr q"
    by (auto simp: quantize2_def check_nan_def Let_def split: if_splits)
  then show ?thesis by (simp add: dec_fix_exp2)
qed

lemma rescale_same: "rescale n e e = n"
  by (simp add: rescale_def)

lemma fmt_amount_Finite:
  assumes "fmt_amount (Finite sg c e) = Inr s"
  shows "s = (if sg then [45] else []) @ show_nat (rescale c e (- 2) div 100) @ [44] @
             pad2 (rescale c e (- 2) mod 100)"
proof -
  define n where "n = rescale c e (- 2)"
  from assms obtain q where "quantize2 (Finite sg c e) = Inr q" and s: "s = replace 46 [44] (format_2f q)"
    by (auto simp: fmt_amount_def bind_eq_Inr)
  then have "q = Finite sg n (- 2)" unfolding n_def by (simp add: quantize2_Finite)
  then have "format_2f q = (if sg then [45] else []) @ show_nat (n div 100) @ [46] @ pad2 (n mod 100)"
    by (simp add: format_2f_def rescale_same)
  moreover have "46 \<notin> set (show_nat (n div 100))" "46 \<notin> set (pad2 (n mod 100))"
    using show_nat_digits [of 46] pad2_digits [of "n mod 100" 46] by (auto simp: is_ascii_digit_def)
  ultimately show ?thesis unfolding s n_def [symmetric]
    by (simp add: replace_append replace_absent replace_Cons replace_Nil)
qed

lemma fmt_amount_special:
  "fmt_amount (Infinity sg) = Inl InvalidOperation"
  by (simp add: fmt_amount_def quantize2_def check_nan_def)

lemma dec_abs_cases:
  assumes "less_zero amount = Inr negative" and "dec_abs amount = Inr a"
  shows "(\<exists>sg c e c' e'. amount = Finite sg c e \<and> negative = (sg \<and> c \<noteq> 0) \<and> a = Finite False c' e') \<or>
         (\<exists>sg. amount = Infinity sg \<and> a = Infinity False)"
  using assms
  by (cases amount) (auto simp: less_zero_def dec_abs_def check_nan_def dec_fix_def Let_def split: if_splits)

lemma round_half_even_nearest:
  fixes c k :: nat
  assumes "0 < k"
  defines "n \<equiv> round_half_even c k"
  shows "\<bar>of_nat n - (of_nat c :: rat) / 10 ^ k\<bar> \<le> 1 / 2 \<and>
         (\<bar>of_nat n - (of_nat c :: rat) / 10 ^ k\<bar> = 1 / 2 \<longrightarrow> even n)"
proof -
  define P :: nat where "P = 10 ^ k"
  define h :: nat where "h = 5 * 10 ^ (k - 1)"
  define q where "q = c div P"
  define r where "r = c mod P"
  define x :: rat where "x = of_nat r / of_nat P"
  from assms(1) have P: "P = 2 * h" and Ppos: "0 < P"
    unfolding P_def h_def by (cases k) simp_all
  have r: "r < P" unfolding r_def using Ppos by simp
  have "c = q * P + r" unfolding q_def r_def by simp
  then have "(of_nat c :: rat) = of_nat q * of_nat P + of_nat r"
    by (metis of_nat_add of_nat_mult)
  then have val: "(of_nat c :: rat) / 10 ^ k = of_nat q + x"
    unfolding x_def using Ppos by (simp add: P_def field_simps)
  have x_le: "x \<le> 1 / 2 \<longleftrightarrow> r \<le> h"
  proof -
    have "x \<le> 1 / 2 \<longleftrightarrow> (of_nat (2 * r) :: rat) \<le> of_nat P"
      unfolding x_def using Ppos by (simp add: field_simps)
    also have "\<dots> \<longleftrightarrow> 2 * r \<le> P" by (rule of_nat_le_iff)
    finally show ?thesis using P by simp
  qed
  have x_ge: "1 / 2 \<le> x \<longleftrightarrow> h \<le> r"
  proof -
    have "1 / 2 \<le> x \<longleftrightarrow> (of_nat P :: rat) \<le> of_nat (2 * r)"
      unfolding x_def using Ppos by (simp add: field_simps)
    also have "\<dots> \<longleftrightarrow> P \<le> 2 * r" by (rule of_nat_le_iff)
    finally show ?thesis using P by simp
  qed
  have x_eq: "x = 1 / 2 \<longleftrightarrow> r = h" using x_le x_ge by (auto simp: order_eq_iff)
  have x0: "0 \<le> x" unfolding x_def by simp
  have x1: "x < 1" unfolding x_def using r Ppos by simp
  show ?thesis
  proof (cases "r > h \<or> (r = h \<and> odd q)")
    case True
    with assms(1) have n: "n = q + 1"
      unfolding n_def round_half_even_def Let_def P_def [symmetric] h_def [symmetric]
        q_def [symmetric] r_def [symmetric] by simp
    have "\<bar>of_nat n - (of_nat q + x)\<bar> = 1 - x" using x1 by (simp add: n)
    moreover from True have "1 / 2 \<le> x" using x_ge by auto
    moreover have "1 - x = 1 / 2 \<longrightarrow> even n"
    proof
      assume "1 - x = 1 / 2"
      then have "x = 1 / 2" by simp
      with x_eq True have "odd q" by simp
      then show "even n" by (simp add: n)
    qed
    ultimately show ?thesis unfolding val by simp
  next
    case False
    with assms(1) have n: "n = q"
      unfolding n_def round_half_even_def Let_def P_def [symmetric] h_def [symmetric]
        q_def [symmetric] r_def [symmetric] by simp
    have "\<bar>of_nat n - (of_nat q + x)\<bar> = x" using x0 by (simp add: n)
    moreover from False have "x \<le> 1 / 2" using x_le by auto
    moreover have "x = 1 / 2 \<longrightarrow> even n" using x_eq False by (simp add: n)
    ultimately show ?thesis unfolding val by simp
  qed
qed

lemma rescale_nearest:
  "\<bar>of_nat (rescale c e (- 2)) / 100 - magnitude c e\<bar> \<le> 1 / 200 \<and>
   (\<bar>of_nat (rescale c e (- 2)) / 100 - magnitude c e\<bar> = 1 / 200 \<longrightarrow> even (rescale c e (- 2)))"
proof -
  consider "c = 0" | "c \<noteq> 0" "- 2 \<le> e" | "c \<noteq> 0" "e < - 2" by linarith
  then show ?thesis
  proof cases
    case 1
    then show ?thesis by (simp add: rescale_def magnitude_def)
  next
    case 2
    then have "(10::rat) powi e = 10 ^ nat (e + 2) / 100"
      using power_int_add [of "10::rat" "e + 2" "- 2"]
      by (simp add: power_int_nonneg_exp power_int_minus field_simps)
    with 2 have "of_nat (rescale c e (- 2)) / 100 = magnitude c e"
      by (simp add: rescale_def magnitude_def)
    then show ?thesis by simp
  next
    case 3
    define k where "k = nat (- 2 - e)"
    from 3 have k: "0 < k" and e: "e = - int k + - 2" unfolding k_def by simp_all
    have "(10::rat) powi e = 1 / (100 * 10 ^ k)"
      unfolding e by (subst power_int_add) (simp_all add: power_int_minus field_simps)
    then have m: "magnitude c e = (of_nat c / 10 ^ k) / 100"
      by (simp add: magnitude_def)
    from 3 have n: "rescale c e (- 2) = round_half_even c k"
      by (simp add: rescale_def k_def)
    have *: "\<bar>a / 100 - b / 100\<bar> = \<bar>a - b\<bar> / 100" for a b :: rat
      by (simp add: diff_divide_distrib [symmetric])
    from round_half_even_nearest [OF k, of c] show ?thesis
      unfolding m n * by simp
  qed
qed

lemma finite_value_negative: "finite_value sg c e < 0 \<longleftrightarrow> sg \<and> c \<noteq> 0"
proof -
  have p: "(0::rat) < 10 powi e" by (rule zero_less_power_int) simp
  have a: "0 < magnitude c e \<longleftrightarrow> c \<noteq> 0"
    unfolding magnitude_def using p by (simp add: zero_less_mult_iff)
  have b: "0 \<le> magnitude c e"
    unfolding magnitude_def using p by simp
  from a b show ?thesis unfolding finite_value_def by (cases sg) auto
qed

lemma ndigits_rec: "ndigits n = (if n < 10 then 1 else Suc (ndigits (n div 10)))"
  unfolding ndigits_def by (subst digits_of.simps) simp

lemma ndigits_upper: "n < 10 ^ ndigits n"
proof (induction n rule: less_induct)
  case (less n)
  show ?case
  proof (cases "n < 10")
    case True
    then show ?thesis by (subst ndigits_rec) simp
  next
    case False
    then have "n div 10 < 10 ^ ndigits (n div 10)" by (intro less.IH) simp
    then have "n < 10 * 10 ^ ndigits (n div 10)" by simp
    with False show ?thesis by (subst ndigits_rec) simp
  qed
qed

lemma ndigits_lower: "n \<noteq> 0 \<Longrightarrow> 10 ^ (ndigits n - 1) \<le> n"
proof (induction n rule: less_induct)
  case (less n)
  show ?case
  proof (cases "n < 10")
    case True
    with less.prems show ?thesis by (subst ndigits_rec) simp
  next
    case False
    then have "10 ^ (ndigits (n div 10) - 1) \<le> n div 10" by (intro less.IH) simp_all
    then have "10 * 10 ^ (ndigits (n div 10) - 1) \<le> n" by simp
    moreover have "1 \<le> ndigits (n div 10)" by (rule ndigits_pos)
    then have "10 * 10 ^ (ndigits (n div 10) - 1) = (10::nat) ^ ndigits (n div 10)"
      by (cases "ndigits (n div 10)") simp_all
    ultimately show ?thesis using False by (subst ndigits_rec) simp
  qed
qed

lemma ndigits_ge: "10 ^ p \<le> n \<Longrightarrow> p < ndigits n"
proof (rule ccontr)
  assume a: "10 ^ p \<le> n" and "\<not> p < ndigits n"
  then have "(10::nat) ^ ndigits n \<le> 10 ^ p" by (intro power_increasing) simp_all
  with ndigits_upper [of n] a show False by simp
qed

lemma ndigits_gt: "p < ndigits n \<Longrightarrow> n \<noteq> 0 \<Longrightarrow> 10 ^ p \<le> n"
proof -
  assume a: "p < ndigits n" and "n \<noteq> 0"
  from ndigits_lower [OF this(2)] have "10 ^ (ndigits n - 1) \<le> n" .
  moreover from a have "(10::nat) ^ p \<le> 10 ^ (ndigits n - 1)" by (intro power_increasing) simp_all
  ultimately show ?thesis by (rule order_trans [rotated])
qed

lemma round_half_even_bounds:
  "c div 10 ^ k \<le> round_half_even c k \<and> round_half_even c k \<le> Suc (c div 10 ^ k)"
  by (simp add: round_half_even_def Let_def)

lemma magnitude_shift: "magnitude c e = (of_nat c / 10 ^ k) * 10 powi (e + int k)"
proof -
  have "(10::rat) powi (e + int k) = 10 powi e * 10 ^ k" by (subst power_int_add) simp_all
  then show ?thesis by (simp add: magnitude_def)
qed

text \<open>Rounding away \<open>k\<close> digits changes the value by at most half a unit of the new last digit.\<close>

lemma round_magnitude:
  assumes "0 < k"
  shows "\<bar>magnitude (round_half_even c k) (e + int k) - magnitude c e\<bar> \<le> 10 powi (e + int k) / 2"
proof -
  define p :: rat where "p = 10 powi (e + int k)"
  define d :: rat where "d = of_nat (round_half_even c k) - of_nat c / 10 ^ k"
  have p: "0 < p" unfolding p_def by (rule zero_less_power_int) simp
  have "magnitude (round_half_even c k) (e + int k) - magnitude c e = d * p"
    unfolding magnitude_shift [of c e k] p_def [symmetric] d_def
    by (simp add: magnitude_def p_def algebra_simps)
  then have "\<bar>magnitude (round_half_even c k) (e + int k) - magnitude c e\<bar> = \<bar>d\<bar> * p"
    using p by (simp add: abs_mult)
  also have "\<dots> \<le> (1 / 2) * p"
    using round_half_even_nearest [OF assms, of c] p unfolding d_def
    by (intro mult_right_mono) simp_all
  finally show ?thesis unfolding p_def by simp
qed

lemma dec_fix_cases:
  assumes "dec_fix (Finite sg c e) = Inr a"
  shows "(c = 0 \<and> (\<exists>e'. a = Finite sg 0 e')) \<or> a = Finite sg c e \<or>
         (\<exists>x coeff. c \<noteq> 0 \<and> e < x \<and> coeff = round_half_even c (nat (x - e)) \<and>
            int (ndigits c) \<le> x - e + int prec \<and>
            (x = Etiny \<or> x = e + int (ndigits c) - int prec) \<and>
            (ndigits coeff \<le> prec \<and> a = Finite sg coeff x \<or>
             prec < ndigits coeff \<and> a = Finite sg (coeff div 10) (x + 1)))"
proof (cases "c = 0")
  case True
  with assms show ?thesis by (auto simp: dec_fix_def)
next
  case False
  define x where "x = (if e + int (ndigits c) - int prec < Etiny then Etiny
                         else e + int (ndigits c) - int prec)"
  show ?thesis
  proof (cases "e < x")
    case True
    define coeff where "coeff = round_half_even c (nat (x - e))"
    from assms False True
    have "ndigits coeff \<le> prec \<and> a = Finite sg coeff x \<or>
          prec < ndigits coeff \<and> a = Finite sg (coeff div 10) (x + 1)"
      unfolding dec_fix_def Let_def x_def coeff_def
      by (auto split: if_splits)
    moreover have "int (ndigits c) \<le> x - e + int prec"
      and "x = Etiny \<or> x = e + int (ndigits c) - int prec"
      unfolding x_def by auto
    ultimately show ?thesis using False True coeff_def by blast
  next
    case False
    with assms \<open>c \<noteq> 0\<close> have "a = Finite sg c e"
      unfolding dec_fix_def Let_def x_def by (auto split: if_splits)
    then show ?thesis by simp
  qed
qed

lemma quantize2_digits:
  assumes "quantize2 (Finite sg c e) = Inr q" and "c \<noteq> 0"
  shows "e + int (ndigits c) \<le> 26"
  using assms by (auto simp: quantize2_def check_nan_def Let_def prec_def split: if_splits)

lemma abs_finite_value: "\<bar>finite_value sg c e\<bar> = magnitude c e"
proof -
  have "(0::rat) \<le> 10 powi e" by (rule zero_le_power_int) simp
  then have "0 \<le> magnitude c e" by (simp add: magnitude_def)
  then show ?thesis by (simp add: finite_value_def)
qed

lemma powi_le_thousandth: "x \<le> - 3 \<Longrightarrow> (10::rat) powi x \<le> 1 / 1000"
  using power_int_increasing [of x "- 3" "10::rat"] by simp

text \<open>
  The two roundings of a transaction amount: \<open>abs\<close> rounds to 28 digits, \<open>quantize\<close> to two
  fractional digits. When \<open>quantize\<close> returns, the last digit that \<open>abs\<close> keeps is at most
  the second fractional digit.
\<close>

lemma rounded_exponent:
  assumes fx: "dec_fix (Finite False c e) = Inr (Finite False c' e')"
    and q: "quantize2 (Finite False c' e') = Inr q"
    and "c \<noteq> 0" and "Finite False c' e' \<noteq> Finite False c e"
  shows "\<exists>x. \<bar>magnitude c' e' - magnitude c e\<bar> \<le> 10 powi x / 2 \<and>
             (x \<le> - 3 \<or> x = - 2 \<and> e' = - 2) \<and>
             (c < 10 ^ prec \<longrightarrow> e < - 30)"
proof -
  from dec_fix_cases [OF fx] assms(3,4) obtain x coeff where
    x: "e < x" and coeff: "coeff = round_half_even c (nat (x - e))"
    and nd: "int (ndigits c) \<le> x - e + int prec"
    and kind: "x = Etiny \<or> x = e + int (ndigits c) - int prec"
    and res: "ndigits coeff \<le> prec \<and> c' = coeff \<and> e' = x \<or>
              prec < ndigits coeff \<and> c' = coeff div 10 \<and> e' = x + 1"
    by auto
  define k where "k = nat (x - e)"
  from x have k: "0 < k" and xk: "x = e + int k" unfolding k_def by simp_all
  from nd have "ndigits c \<le> k + prec" unfolding xk by simp
  then have "(10::nat) ^ ndigits c \<le> 10 ^ (k + prec)" by (intro power_increasing) simp_all
  with ndigits_upper [of c] have "c < 10 ^ k * 10 ^ prec" by (simp add: power_add)
  then have "c div 10 ^ k < 10 ^ prec" by (simp add: less_mult_imp_div_less mult.commute)
  with round_half_even_bounds [of c k] have upper: "coeff \<le> 10 ^ prec"
    unfolding coeff k_def [symmetric] by simp
  have same: "magnitude c' e' = magnitude coeff x"
  proof (cases "prec < ndigits coeff")
    case False
    with res show ?thesis by auto
  next
    case True
    then have "coeff \<noteq> 0" by (cases "coeff = 0") (simp_all add: ndigits_rec prec_def)
    from ndigits_gt [OF True this] upper have c: "coeff = 10 ^ prec" by simp
    have "(10::rat) powi (x + 1) = 10 powi x * 10" by (subst power_int_add) simp_all
    moreover from True res have "c' = coeff div 10" "e' = x + 1" by auto
    ultimately show ?thesis unfolding c by (simp add: magnitude_def prec_def)
  qed
  have err: "\<bar>magnitude c' e' - magnitude c e\<bar> \<le> 10 powi x / 2"
    unfolding same coeff k_def [symmetric] using round_magnitude [OF k, of c e] by (simp add: xk)
  have tiny: "Etiny \<le> - 3" by (simp add: Etiny_def Emin_def prec_def)
  have pos: "x \<le> - 3 \<or> x = - 2 \<and> e' = - 2"
  proof (cases "x = Etiny")
    case True
    with tiny show ?thesis by simp
  next
    case False
    with kind have "int (ndigits c) = int k + int prec" unfolding xk by simp
    then have ndc: "ndigits c - 1 = k + 27" by (simp add: prec_def)
    from ndigits_lower [OF assms(3)] have "10 ^ k * 10 ^ 27 \<le> c"
      unfolding ndc by (simp add: power_add)
    then have "10 ^ 27 \<le> c div 10 ^ k"
      by (simp add: less_eq_div_iff_mult_less_eq mult.commute)
    with round_half_even_bounds [of c k] have lower: "10 ^ 27 \<le> coeff"
      unfolding coeff k_def [symmetric] by simp
    have c': "10 ^ 27 \<le> c'"
    proof (cases "prec < ndigits coeff")
      case False
      with res lower show ?thesis by auto
    next
      case True
      then have "coeff \<noteq> 0" by (cases "coeff = 0") (simp_all add: ndigits_rec prec_def)
      from ndigits_gt [OF True this] upper have "coeff = 10 ^ prec" by simp
      with True res show ?thesis by (simp add: prec_def)
    qed
    then have "c' \<noteq> 0" by auto
    from quantize2_digits [OF q this] ndigits_ge [OF c'] have "e' \<le> - 2" by simp
    with res show ?thesis by auto
  qed
  have small: "e < - 30" if "c < 10 ^ prec"
  proof -
    have "ndigits c \<le> prec"
    proof (rule ccontr)
      assume "\<not> ndigits c \<le> prec"
      then have "prec < ndigits c" by simp
      from ndigits_gt [OF this assms(3)] that show False by simp
    qed
    with kind x have "x = Etiny" by auto
    with x show ?thesis by (simp add: Etiny_def Emin_def prec_def)
  qed
  from err pos small show ?thesis by blast
qed

lemma abs_quantize_value:
  assumes fx: "dec_fix (Finite False c e) = Inr (Finite False c' e')"
    and q: "quantize2 (Finite False c' e') = Inr q"
  defines "n \<equiv> rescale c' e' (- 2)"
  shows "\<bar>of_nat n / 100 - magnitude c e\<bar> \<le> 11 / 2000 \<and>
         (c < 10 ^ prec \<longrightarrow>
            \<bar>of_nat n / 100 - magnitude c e\<bar> \<le> 1 / 200 \<and>
            (\<bar>of_nat n / 100 - magnitude c e\<bar> = 1 / 200 \<longrightarrow> even n))"
proof -
  note near = rescale_nearest [of c' e', folded n_def]
  consider "Finite False c' e' = Finite False c e" | "c = 0" "Finite False c' e' \<noteq> Finite False c e"
    | "c \<noteq> 0" "Finite False c' e' \<noteq> Finite False c e" by blast
  then show ?thesis
  proof cases
    case 1
    with near show ?thesis by auto
  next
    case 2
    with dec_fix_cases [OF fx] have "c' = 0" by auto
    with 2 show ?thesis by (simp add: n_def rescale_def magnitude_def)
  next
    case 3
    from rounded_exponent [OF fx q 3] obtain x where
      err: "\<bar>magnitude c' e' - magnitude c e\<bar> \<le> 10 powi x / 2"
      and pos: "x \<le> - 3 \<or> x = - 2 \<and> e' = - 2"
      and small: "c < 10 ^ prec \<longrightarrow> e < - 30" by blast
    have bound: "\<bar>of_nat n / 100 - magnitude c e\<bar> \<le> 11 / 2000"
    proof (cases "x \<le> - 3")
      case True
      from powi_le_thousandth [OF True] err
      have "\<bar>magnitude c' e' - magnitude c e\<bar> \<le> 1 / 2000" by simp
      with near show ?thesis by linarith
    next
      case False
      with pos have x: "x = - 2" "e' = - 2" by simp_all
      have "of_nat n / 100 = magnitude c' e'"
        unfolding n_def x by (simp add: rescale_same magnitude_def)
      with err show ?thesis unfolding x(1) by simp
    qed
    have exact: "\<bar>of_nat n / 100 - magnitude c e\<bar> \<le> 1 / 200 \<and>
            (\<bar>of_nat n / 100 - magnitude c e\<bar> = 1 / 200 \<longrightarrow> even n)" if "c < 10 ^ prec"
    proof -
      from that small have e: "e \<le> - 31" by simp
      have "(10::rat) powi e \<le> 10 powi (- 31)"
        using e by (intro power_int_increasing) simp_all
      moreover from that have "c < 10 ^ 28" by (simp add: prec_def)
      then have "(of_nat c :: rat) < of_nat (10 ^ 28)" by (simp only: of_nat_less_iff)
      then have "(of_nat c :: rat) < 10 ^ 28" by simp
      moreover have "(0::rat) < 10 powi e" by (rule zero_less_power_int) simp
      ultimately have "of_nat c * (10::rat) powi e < 10 ^ 28 * 10 powi (- 31)"
        by (intro mult_less_le_imp_less) simp_all
      then have m: "magnitude c e < 1 / 1000" by (simp add: magnitude_def)
      have m0: "0 \<le> magnitude c e" using abs_finite_value [of False c e] by (simp add: finite_value_def)
      from bound m m0 have "(of_nat n :: rat) < 1" by linarith
      then have "n = 0" by simp
      with m m0 show ?thesis by simp
    qed
    from bound exact show ?thesis by blast
  qed
qed

subsection \<open>The lines of a statement\<close>

lemma tx_loop_blocks:
  "tx_loop U f cur lines txs = Inr ls \<Longrightarrow>
     \<exists>blocks. map (tx_lines U f cur) txs = map Inr blocks \<and> ls = lines @ concat blocks"
proof (induction txs arbitrary: lines)
  case Nil
  then show ?case by simp
next
  case (Cons tx txs)
  from Cons.prems obtain block where b: "tx_lines U f cur tx = Inr block"
    and rest: "tx_loop U f cur (lines @ block) txs = Inr ls"
    by (auto simp: bind_eq_Inr)
  from Cons.IH [OF rest] obtain blocks where
    "map (tx_lines U f cur) txs = map Inr blocks" "ls = (lines @ block) @ concat blocks"
    by blast
  with b have "map (tx_lines U f cur) (tx # txs) = map Inr (block # blocks) \<and>
               ls = lines @ concat (block # blocks)" by simp
  then show ?case by blast
qed

lemma fmt_yyMMdd_Inr:
  "fmt_yyMMdd U x = Inr y \<longleftrightarrow> (\<exists>t d. x = Some t \<and> strptime U t = Inr d \<and> y = strftime_yymmdd d)"
  by (auto simp: fmt_yyMMdd_def bind_eq_Inr split: option.splits)

lemma fmt_MMDD_Inr:
  "fmt_MMDD U x = Inr y \<longleftrightarrow> (\<exists>t d. x = Some t \<and> strptime U t = Inr d \<and> y = strftime_mmdd d)"
  by (auto simp: fmt_MMDD_def bind_eq_Inr split: option.splits)

lemma statement_lines_Inr:
  assumes "statement_lines U rows iban = Inr ls"
  defines "cur \<equiv> upper U (strip (or_str (py_or (get (hd rows) (lit ''Payment currency''))
                                                  (get (last rows) (lit ''Payment currency'')))
                                           (lit ''EUR'')))"
  obtains t od t' cd opening_str closing_str blocks
  where "getitem (last rows) (lit ''Date completed (UTC)'') = Inr (Some t)"
    and "strptime U t = Inr od"
    and "getitem (hd rows) (lit ''Date completed (UTC)'') = Inr (Some t')"
    and "strptime U t' = Inr cd"
    and "fmt_amount (parse_decimal U (get_default (last rows) (lit ''Balance'') (lit ''0''))) = Inr opening_str"
    and "fmt_amount (parse_decimal U (get_default (hd rows) (lit ''Balance'') (lit ''0''))) = Inr closing_str"
    and "map (tx_lines U (last rows) cur) (rev rows) = map Inr blocks"
    and "ls = [lit '':20:MT940'', lit '':25:/'' @ replace 32 [] iban, lit '':28C:1'',
               lit '':60F:C'' @ strftime_yymmdd od @ cur @ opening_str] @ concat blocks @
              [lit '':62F:C'' @ strftime_yymmdd cd @ cur @ closing_str,
               lit '':64:C'' @ strftime_yymmdd (od\<lparr>day := days_in_month (year od) (month od)\<rparr>) @
                 cur @ closing_str,
               lit ''-'']"
  using assms(1) unfolding statement_lines_def Let_def bind_eq_Inr cur_def fmt_yyMMdd_Inr
  by (auto dest!: tx_loop_blocks)

lemma tx_lines_Inr:
  assumes "tx_lines U first_row cur tx = Inr ls"
  defines "amount \<equiv> parse_decimal U (Some (or_str (py_or (get tx (lit ''Amount''))
                                                            (get tx (lit ''Orig amount''))) (lit ''0'')))"
    and "code \<equiv> (if contains (lit ''FEE'') (upper U (or_str (get tx (lit ''Type'')) []))
                    then lit ''49'' else lit ''119'')"
    and "reference \<equiv> strip (or_str (get tx (lit ''Reference'')) [])"
    and "description \<equiv> strip (or_str (get tx (lit ''Description'')) [])"
    and "ben_iban \<equiv> strip (or_str (get tx (lit ''Beneficiary IBAN'')) [])"
    and "symbol \<equiv> (if cur = lit ''EUR'' then [8364] else cur)"
  obtains d negative amount_abs amount_str chunks
  where "less_zero amount = Inr negative"
    and "dec_abs amount = Inr amount_abs"
    and "fmt_amount amount_abs = Inr amount_str"
    and "split_text_chunks description 35 = Inr chunks"
    and "ls = [lit '':61:'' @ strftime_yymmdd d @ strftime_mmdd d @
                 (if negative then lit ''D'' else lit ''C'') @ amount_str @ lit ''N'' @ code @
                 lit ''NONREF//'' @ strip (replace 45 [] (or_str (get tx (lit ''ID'')) [])),
               code @ lit '' 0'',
               lit '':86:020~00'' @ code] @
              (if reference \<noteq> [] then [lit ''~20'' @ reference] else []) @
              (if chunks \<noteq> [] then [lit ''~32'' @ chunks ! 0] else []) @
              (if length chunks \<ge> 2 then [lit ''~33'' @ chunks ! 1] else []) @
              (if length chunks > 2 then [lit ''~38'' @ concat (drop 2 chunks)] else []) @
              (if ben_iban \<noteq> [] then [lit ''~38'' @ filter (\<lambda>c. c \<noteq> 32) ben_iban] else []) @
              [lit ''~60'' @ symbol, lit ''~63'' @ symbol]"
proof -
  have one: "1 \<le> length xs \<longleftrightarrow> xs \<noteq> []" for xs :: "str list"
    by (cases xs) auto
  have nest: "(if c then (if c then A else B) else C) = (if c then A else C)" for c and A B C :: "str list"
    by simp
  have outer: "(if c then L @ M else L) = L @ (if c then M else [])" for c and L M :: "str list"
    by simp
  from assms(1) obtain dc d d' negative amount_abs amount_str chunks where
    f: "strptime U dc = Inr d" "strptime U dc = Inr d'"
    "less_zero amount = Inr negative" "dec_abs amount = Inr amount_abs"
    "fmt_amount amount_abs = Inr amount_str" "split_text_chunks description 35 = Inr chunks"
    and ls: "ls = [lit '':61:'' @ strftime_yymmdd d @ strftime_mmdd d' @
                 (if negative then lit ''D'' else lit ''C'') @ amount_str @ lit ''N'' @ code @
                 lit ''NONREF//'' @ strip (replace 45 [] (or_str (get tx (lit ''ID'')) [])),
               code @ lit '' 0'',
               lit '':86:020~00'' @ code] @
              (if reference \<noteq> [] then [lit ''~20'' @ reference] else []) @
              (if chunks \<noteq> [] then
                 (if chunks \<noteq> [] then [lit ''~32'' @ chunks ! 0] else []) @
                 (if length chunks \<ge> 2 then [lit ''~33'' @ chunks ! 1] else []) @
                 (if length chunks > 2 then [lit ''~38'' @ concat (drop 2 chunks)] else [])
               else []) @
              (if ben_iban \<noteq> [] then [lit ''~38'' @ filter (\<lambda>c. c \<noteq> 32) ben_iban] else []) @
              [lit ''~60'' @ symbol, lit ''~63'' @ symbol]"
    unfolding tx_lines_def Let_def bind_eq_Inr fmt_yyMMdd_Inr fmt_MMDD_Inr
      amount_def code_def reference_def description_def ben_iban_def symbol_def
      join_empty_sep replace_remove one if_snoc outer append_assoc
    by (elim exE conjE) (simp only: append_assoc append_Cons append_Nil option.inject, blast)
  from f(1,2) have "d' = d" by simp
  moreover have "chunks \<noteq> [] \<or> \<not> 2 \<le> length chunks \<and> \<not> 2 < length chunks" by (cases chunks) auto
  ultimately have "ls = [lit '':61:'' @ strftime_yymmdd d @ strftime_mmdd d @
                 (if negative then lit ''D'' else lit ''C'') @ amount_str @ lit ''N'' @ code @
                 lit ''NONREF//'' @ strip (replace 45 [] (or_str (get tx (lit ''ID'')) [])),
               code @ lit '' 0'',
               lit '':86:020~00'' @ code] @
              (if reference \<noteq> [] then [lit ''~20'' @ reference] else []) @
              (if chunks \<noteq> [] then [lit ''~32'' @ chunks ! 0] else []) @
              (if length chunks \<ge> 2 then [lit ''~33'' @ chunks ! 1] else []) @
              (if length chunks > 2 then [lit ''~38'' @ concat (drop 2 chunks)] else []) @
              (if ben_iban \<noteq> [] then [lit ''~38'' @ filter (\<lambda>c. c \<noteq> 32) ben_iban] else []) @
              [lit ''~60'' @ symbol, lit ''~63'' @ symbol]"
    unfolding ls by auto
  with f show ?thesis using that by blast
qed

lemma revolut_Inr:
  "revolut_to_mt940 U csv iban = Inr out \<longleftrightarrow>
     (\<exists>rows ls. DictReader csv = Inr rows \<and> rows \<noteq> [] \<and>
                statement_lines U rows iban = Inr ls \<and> out = join [10] ls)"
  by (auto simp: revolut_to_mt940_def bind_eq_Inr)

lemma strftime_yymmdd_length: "length (strftime_yymmdd d) = 6"
  by (simp add: strftime_yymmdd_def pad2_def)

lemma strftime_mmdd_length: "length (strftime_mmdd d) = 4"
  by (simp add: strftime_mmdd_def pad2_def)

lemma tx_lines_symbol:
  assumes "tx_lines U first_row cur tx = Inr b"
  shows "\<exists>pre. b = pre @ [lit ''~60'' @ (if cur = lit ''EUR'' then [8364] else cur),
                         lit ''~63'' @ (if cur = lit ''EUR'' then [8364] else cur)]"
proof -
  have *: "\<exists>pre. A @ B @ C @ D @ E @ F @ G = pre @ G" for A B C D E F G :: "str list"
    by (metis append.assoc)
  from assms show ?thesis
    by (rule tx_lines_Inr) (simp only: *)
qed

lemma upper_strip_EUR: "upper U (strip (lit ''EUR'')) = lit ''EUR''"
  by (simp add: upper_def strip_def lit_def is_space_def)

lemma or_str_py_or:
  "or_str (py_or x y) d =
     (case x of Some (c # cs) \<Rightarrow> c # cs
      | _ \<Rightarrow> (case y of Some (c # cs) \<Rightarrow> c # cs | _ \<Rightarrow> d))"
  by (auto simp: or_str_def py_or_def truthy_def split: option.splits list.splits)

lemma or_str_default: "\<not> truthy x \<Longrightarrow> \<not> truthy y \<Longrightarrow> or_str (py_or x y) d = d"
  by (cases y; cases "the y") (auto simp: py_or_def or_str_def truthy_def)

subsection \<open>Text chunking\<close>

lemma concat_slices:
  "concat (map (\<lambda>k. slice t (k * n) (k * n + n)) [0 ..< m]) = take (m * n) t"
proof (induction m)
  case 0
  show ?case by simp
next
  case (Suc m)
  have "take (m * n + n) t = take (m * n) t @ take n (drop (m * n) t)"
    by (simp add: take_add)
  with Suc show ?case by (simp add: slice_def add.commute)
qed

lemma range_step_covers:
  assumes "0 < n"
  shows "len \<le> ((len + n - 1) div n) * (n::nat)"
proof -
  have "(len + n - 1) mod n < n" using assms by simp
  moreover have "((len + n - 1) div n) * n + (len + n - 1) mod n = len + n - 1"
    by simp
  ultimately show ?thesis by linarith
qed

lemma concat_chunks:
  assumes "0 < n"
  shows "concat (map (\<lambda>i. slice t i (i + n)) (range_step (length t) n)) = t"
  using range_step_covers [OF assms, of "length t"]
  by (simp add: range_step_def comp_def concat_slices)

lemma full_chunks:
  assumes "0 < n" and "i \<in> set (butlast (range_step (length t) n))"
  shows "length (slice t i (i + n)) = n"
proof -
  define m where "m = (length t + n - 1) div n"
  have "butlast (range_step (length t) n) = map (\<lambda>k. k * n) [0 ..< m - 1]"
    by (simp add: range_step_def m_def map_butlast [symmetric] butlast_conv_take take_map)
  with assms(2) have "i \<in> (\<lambda>k. k * n) ` {0 ..< m - 1}" by simp
  then obtain k where k: "i = k * n" "k \<in> {0 ..< m - 1}" by blast
  have "m * n < length t + n"
  proof -
    have "m * n \<le> length t + n - 1" unfolding m_def by simp
    then show ?thesis using assms(1) by linarith
  qed
  moreover have "(k + 2) * n \<le> m * n" using k(2) by (intro mult_le_mono1) simp
  ultimately have "k * n + n \<le> length t" by simp
  then show ?thesis using k(1) by (simp add: slice_def)
qed

lemma chunks_beyond_two:
  assumes "split_text_chunks t 35 = Inr chunks"
    and "length (strip (replace 10 [32] (replace 13 [32] t))) > 70"
  shows "length chunks > 2 \<and> concat (drop 2 chunks) = drop 70 (strip (replace 10 [32] (replace 13 [32] t)))"
proof -
  define u where "u = strip (replace 10 [32] (replace 13 [32] t))"
  define m where "m = (length u + 35 - 1) div 35"
  define f where "f = (\<lambda>k. slice u (k * 35) (k * 35 + 35))"
  from assms(2) have len: "length u > 70" by (simp add: u_def)
  then have m: "2 < m" unfolding m_def by simp
  from len have "u \<noteq> []" by auto
  with assms(1) have chunks: "chunks = map f [0 ..< m]"
    by (simp add: split_text_chunks_def u_def [symmetric] range_step_def m_def f_def comp_def)
  have "length u \<le> m * 35" unfolding m_def by (rule range_step_covers) simp
  then have all: "concat (map f [0 ..< m]) = u"
    unfolding f_def by (simp add: concat_slices)
  have two: "concat (map f [0 ..< 2]) = take 70 u"
    unfolding f_def by (simp add: concat_slices)
  from m have "[0 ..< m] = [0 ..< 2] @ [2 ..< m]"
    by (metis less_imp_le_nat upt_add_eq_append zero_le le_add_diff_inverse)
  then have split: "map f [0 ..< m] = map f [0 ..< 2] @ map f [2 ..< m]"
    by (metis map_append)
  have "drop 2 (map f [0 ..< m]) = map f [2 ..< m]"
    unfolding split by simp
  moreover from all two have "take 70 u @ concat (map f [2 ..< m]) = u"
    unfolding split by simp
  then have "concat (map f [2 ..< m]) = drop 70 u"
    by (metis append_eq_conv_conj append_take_drop_id same_append_eq)
  ultimately show ?thesis using m unfolding chunks u_def [symmetric] by simp
qed

subsection \<open>The csv reader on a header line\<close>

lemma readlines_no_newline:
  "10 \<notin> set h \<Longrightarrow> readlines cur (h @ t) = readlines (cur @ h) t"
  by (induction h arbitrary: cur) auto

lemma concat_readlines: "concat (readlines cur t) = cur @ t"
  by (induction t arbitrary: cur) auto

lemma readlines_first:
  assumes "cur @ t \<noteq> []"
  shows "\<exists>t1 ls. readlines cur t = (cur @ t1) # ls \<and> t = t1 @ concat ls"
  using assms
proof (induction t arbitrary: cur)
  case Nil
  then show ?case by simp
next
  case (Cons c t)
  show ?case
  proof (cases "c = 10")
    case True
    have "readlines cur (c # t) = (cur @ [c]) # readlines [] t" using True by simp
    moreover have "c # t = [c] @ concat (readlines [] t)" by (simp add: concat_readlines)
    ultimately show ?thesis by blast
  next
    case False
    from Cons.IH [of "cur @ [c]"] obtain t1 ls where
      "readlines (cur @ [c]) t = ((cur @ [c]) @ t1) # ls" "t = t1 @ concat ls" by auto
    with False have "readlines cur (c # t) = (cur @ (c # t1)) # ls \<and> c # t = (c # t1) @ concat ls"
      by simp
    then show ?thesis by blast
  qed
qed

text \<open>A character that is not a line end, outside the state after a line end.\<close>

lemma process_char_plain:
  assumes "\<not> is_newline c" and "state r \<noteq> EAT_CRNL"
  shows "(parse_process_char r (Ch c) = Inl CsvError \<and> field_limit \<le> length (field r)) \<or>
         (\<exists>r'. parse_process_char r (Ch c) = Inr r' \<and> state r' \<noteq> EAT_CRNL \<and>
              length (field r') \<le> Suc (length (field r)))"
  using assms
  by (cases "state r")
     (auto simp: parse_process_char_def process_start_field_def parse_add_char_def
        parse_save_field_def set_state_def)

lemma process_line_plain:
  assumes "\<forall>c \<in> set h. \<not> is_newline c" and "state r \<noteq> EAT_CRNL"
  shows "(process_line r (h @ t) = Inl CsvError \<and> field_limit < length (field r) + length h) \<or>
         (\<exists>r'. process_line r (h @ t) = process_line r' t \<and> state r' \<noteq> EAT_CRNL \<and>
              length (field r') \<le> length (field r) + length h)"
  using assms
proof (induction h arbitrary: r)
  case Nil
  then show ?case by auto
next
  case (Cons c h)
  from Cons.prems have c: "\<not> is_newline c" by simp
  from process_char_plain [OF c Cons.prems(2)] show ?case
  proof (elim disjE exE conjE)
    assume "parse_process_char r (Ch c) = Inl CsvError" "field_limit \<le> length (field r)"
    then show ?thesis by simp
  next
    fix r1 assume r1: "parse_process_char r (Ch c) = Inr r1" "state r1 \<noteq> EAT_CRNL"
        "length (field r1) \<le> Suc (length (field r))"
    from Cons.prems(1) have "\<forall>c \<in> set h. \<not> is_newline c" by simp
    from Cons.IH [OF this r1(2)] show ?thesis
    proof (elim disjE exE conjE)
      assume "process_line r1 (h @ t) = Inl CsvError" "field_limit < length (field r1) + length h"
      with r1 show ?thesis by simp
    next
      fix r' assume "process_line r1 (h @ t) = process_line r' t" "state r' \<noteq> EAT_CRNL"
        "length (field r') \<le> length (field r1) + length h"
      with r1 have "process_line r ((c # h) @ t) = process_line r' t \<and> state r' \<noteq> EAT_CRNL \<and>
              length (field r') \<le> length (field r) + length (c # h)" by simp
      then show ?thesis by blast
    qed
  qed
qed

text \<open>Line ends inside a quoted field are characters of the field.\<close>

lemma process_line_quoted:
  assumes "\<forall>c \<in> set t. is_newline c" and "state r = IN_QUOTED_FIELD"
  shows "(process_line r t = Inl CsvError \<and> field_limit < length (field r) + length t) \<or>
         (\<exists>r'. process_line r t = Inr r' \<and> state r' = IN_QUOTED_FIELD \<and>
              length (field r') \<le> length (field r) + length t)"
  using assms
proof (induction t arbitrary: r)
  case Nil
  then show ?case by (simp add: parse_process_char_def)
next
  case (Cons c t)
  from Cons.prems have c: "c \<noteq> 34" by (auto simp: is_newline_def)
  show ?case
  proof (cases "field_limit \<le> length (field r)")
    case True
    with c Cons.prems(2) show ?thesis
      by (simp add: parse_process_char_def parse_add_char_def)
  next
    case False
    define r1 where "r1 = r\<lparr>field := field r @ [c]\<rparr>"
    from False c Cons.prems(2) have r1: "parse_process_char r (Ch c) = Inr r1"
      by (simp add: parse_process_char_def parse_add_char_def r1_def)
    have s1: "state r1 = IN_QUOTED_FIELD" "length (field r1) = Suc (length (field r))"
      using Cons.prems(2) by (simp_all add: r1_def)
    from Cons.prems(1) have "\<forall>c \<in> set t. is_newline c" by simp
    from Cons.IH [OF this s1(1)] r1 s1(2) show ?thesis by auto
  qed
qed

text \<open>Line ends outside a quoted field end the record and add nothing to it.\<close>

lemma process_line_newlines:
  assumes "\<forall>c \<in> set t. is_newline c" and "state r \<noteq> IN_QUOTED_FIELD"
  shows "\<exists>r'. process_line r t = Inr r' \<and> state r' = START_RECORD \<and>
              (state r = START_RECORD \<or> state r = EAT_CRNL \<longrightarrow> fields' r' = fields' r)"
  using assms
proof (induction t arbitrary: r)
  case Nil
  then show ?case
    by (cases "state r") (auto simp: parse_process_char_def process_start_field_def parse_save_field_def)
next
  case (Cons c t)
  from Cons.prems have c: "c = 10 \<or> c = 13" by (simp add: is_newline_def)
  with Cons.prems(2) have "\<exists>r1. parse_process_char r (Ch c) = Inr r1 \<and> state r1 = EAT_CRNL \<and>
    (state r = START_RECORD \<or> state r = EAT_CRNL \<longrightarrow> fields' r1 = fields' r)"
    by (cases "state r")
       (auto simp: parse_process_char_def process_start_field_def parse_save_field_def is_newline_def)
  then obtain r1 where r1: "parse_process_char r (Ch c) = Inr r1" "state r1 = EAT_CRNL"
    "state r = START_RECORD \<or> state r = EAT_CRNL \<longrightarrow> fields' r1 = fields' r"
    by blast
  from Cons.prems(1) have "\<forall>c \<in> set t. is_newline c" by simp
  from Cons.IH [OF this, of r1] r1 show ?case by auto
qed

lemma blank_lines_records:
  assumes "\<forall>l \<in> set ls. \<forall>c \<in> set l. is_newline c"
  shows "reader_records parse_reset ls = Inr (replicate (length ls) [])"
  using assms
proof (induction ls)
  case Nil
  then show ?case by (simp add: parse_reset_def)
next
  case (Cons l ls)
  from Cons.prems have "\<forall>c \<in> set l. is_newline c" by simp
  from process_line_newlines [OF this, of parse_reset] obtain r' where
    "process_line parse_reset l = Inr r'" "state r' = START_RECORD" "fields' r' = []"
    by (auto simp: parse_reset_def)
  with Cons show ?case by simp
qed

lemma quoted_lines_records:
  assumes "\<forall>l \<in> set ls. \<forall>c \<in> set l. is_newline c" and "state r = IN_QUOTED_FIELD"
  shows "(reader_records r ls = Inl CsvError \<and> field_limit < length (field r) + length (concat ls)) \<or>
         (\<exists>rec. reader_records r ls = Inr [rec])"
  using assms
proof (induction ls arbitrary: r)
  case Nil
  then show ?case by simp
next
  case (Cons l ls)
  from Cons.prems have l: "\<forall>c \<in> set l. is_newline c" and ls: "\<forall>l \<in> set ls. \<forall>c \<in> set l. is_newline c"
    by simp_all
  from process_line_quoted [OF l Cons.prems(2)] show ?case
  proof (elim disjE exE conjE)
    assume "process_line r l = Inl CsvError" "field_limit < length (field r) + length l"
    then show ?thesis by simp
  next
    fix r' assume r': "process_line r l = Inr r'" "state r' = IN_QUOTED_FIELD"
      "length (field r') \<le> length (field r) + length l"
    from Cons.IH [OF ls r'(2)] r' show ?thesis by auto
  qed
qed

text \<open>
  A line without line ends in it, followed by line ends only: the reader fails on a
  field beyond the field size limit, or it finds the record of the line and after it
  empty records only.
\<close>

lemma header_only_records:
  assumes "10 \<notin> set h" and "13 \<notin> set h" and "set t \<subseteq> {10, 13}"
  shows "(csv_reader (h @ t) = Inl CsvError \<and> field_limit < length h + length t) \<or>
         csv_reader (h @ t) = Inr [] \<or>
         (\<exists>rec n. csv_reader (h @ t) = Inr (rec # replicate n []))"
proof (cases "h @ t = []")
  case True
  then show ?thesis by (simp add: csv_reader_def)
next
  case False
  from assms(1,2) have plain: "\<forall>c \<in> set h. \<not> is_newline c" by (auto simp: is_newline_def)
  from assms(3) have ends: "\<forall>c \<in> set t. is_newline c" by (auto simp: is_newline_def)
  from readlines_first [OF False] obtain t1 ls where
    lines: "readlines h t = (h @ t1) # ls" and t: "t = t1 @ concat ls" by blast
  from ends t have t1: "\<forall>c \<in> set t1. is_newline c"
    and ls: "\<forall>l \<in> set ls. \<forall>c \<in> set l. is_newline c" by auto
  from t have len: "length t = length t1 + length (concat ls)" by simp
  have recs: "csv_reader (h @ t) = reader_records parse_reset ((h @ t1) # ls)"
    using assms(1) lines by (simp add: csv_reader_def readlines_no_newline)
  have "state parse_reset \<noteq> EAT_CRNL" "length (field parse_reset) = 0"
    by (simp_all add: parse_reset_def)
  with process_line_plain [OF plain, of parse_reset t1]
  consider "process_line parse_reset (h @ t1) = Inl CsvError" "field_limit < length h"
    | r1 where "process_line parse_reset (h @ t1) = process_line r1 t1" "state r1 \<noteq> EAT_CRNL"
        "length (field r1) \<le> length h"
    by auto
  then show ?thesis
  proof cases
    case 1
    then show ?thesis unfolding recs by simp
  next
    case (2 r1)
    show ?thesis
    proof (cases "state r1 = IN_QUOTED_FIELD")
      case True
      from process_line_quoted [OF t1 True] show ?thesis
      proof (elim disjE exE conjE)
        assume "process_line r1 t1 = Inl CsvError" "field_limit < length (field r1) + length t1"
        with 2 len show ?thesis unfolding recs by simp
      next
        fix r2 assume r2: "process_line r1 t1 = Inr r2" "state r2 = IN_QUOTED_FIELD"
          "length (field r2) \<le> length (field r1) + length t1"
        with 2 have eq: "csv_reader (h @ t) = reader_records r2 ls" unfolding recs by simp
        from quoted_lines_records [OF ls r2(2)] show ?thesis
        proof (elim disjE exE conjE)
          assume "reader_records r2 ls = Inl CsvError"
            "field_limit < length (field r2) + length (concat ls)"
          with 2 r2 len show ?thesis unfolding eq by simp
        next
          fix rec assume "reader_records r2 ls = Inr [rec]"
          then have "csv_reader (h @ t) = Inr (rec # replicate 0 [])" unfolding eq by simp
          then show ?thesis by blast
        qed
      qed
    next
      case False
      from process_line_newlines [OF t1 False] obtain r2 where
        "process_line r1 t1 = Inr r2" "state r2 = START_RECORD" by blast
      with 2 have "csv_reader (h @ t) = Inr (fields' r2 # replicate (length ls) [])"
        unfolding recs by (simp add: blank_lines_records [OF ls])
      then show ?thesis by blast
    qed
  qed
qed

text \<open>A field of the letter \<open>a\<close> that grows beyond the field size limit.\<close>

lemma in_field_overflow:
  assumes "state r = IN_FIELD" and "length (field r) \<le> field_limit"
    and "field_limit < length (field r) + n"
  shows "process_line r (replicate n 97) = Inl CsvError"
  using assms
proof (induction n arbitrary: r)
  case 0
  then show ?case by simp
next
  case (Suc n)
  show ?case
  proof (cases "field_limit \<le> length (field r)")
    case True
    with Suc.prems(1) show ?thesis
      by (simp add: parse_process_char_def parse_add_char_def is_newline_def)
  next
    case False
    define r1 where "r1 = r\<lparr>field := field r @ [97]\<rparr>"
    from False Suc.prems(1) have "parse_process_char r (Ch 97) = Inr r1"
      by (simp add: parse_process_char_def parse_add_char_def is_newline_def r1_def)
    moreover have "process_line r1 (replicate n 97) = Inl CsvError"
      using False Suc.prems by (intro Suc.IH) (simp_all add: r1_def)
    ultimately show ?thesis by simp
  qed
qed

lemma long_header_error:
  assumes "field_limit < n"
  shows "revolut_to_mt940 U (replicate n 97) iban = Inl CsvError"
proof -
  from assms obtain m where n: "n = Suc m" and m: "field_limit \<le> m"
    by (cases n) (simp_all add: field_limit_def)
  define r1 where "r1 = \<lparr>state = IN_FIELD, fields' = [], field = [97]\<rparr>"
  have "(10::nat) \<notin> set (replicate n 97)" by simp
  from readlines_no_newline [OF this, of "[]" "[]"] n
  have "readlines [] (replicate n 97) = [replicate n 97]" by simp
  moreover have "parse_process_char parse_reset (Ch 97) = Inr r1"
    by (simp add: parse_process_char_def process_start_field_def parse_add_char_def set_state_def
        parse_reset_def is_newline_def field_limit_def r1_def)
  moreover have "process_line r1 (replicate m 97) = Inl CsvError"
    using m by (intro in_field_overflow) (simp_all add: r1_def field_limit_def)
  ultimately have "csv_reader (replicate n 97) = Inl CsvError"
    by (simp add: csv_reader_def n)
  then show ?thesis by (simp add: revolut_to_mt940_def DictReader_def)
qed

subsection \<open>Rows that are too long\<close>

lemma zip_take_length: "zip xs (take (length xs) ys) = zip xs ys"
proof (induction xs arbitrary: ys)
  case Nil
  show ?case by simp
next
  case (Cons x xs)
  then show ?case by (cases ys) simp_all
qed

lemma make_row_take:
  "make_row fieldnames (take (length fieldnames) r) = (make_row fieldnames r)\<lparr>rest := None\<rparr>"
proof (cases "length fieldnames < length r")
  case True
  then show ?thesis by (simp add: make_row_def Let_def zip_take_length min_def)
next
  case False
  then show ?thesis by (simp add: make_row_def Let_def)
qed

lemma get_rest [simp]:
  "get (r\<lparr>rest := x\<rparr>) k = get r k"
  "get_default (r\<lparr>rest := x\<rparr>) k d = get_default r k d"
  "getitem (r\<lparr>rest := x\<rparr>) k = getitem r k"
  by (simp_all add: get_def get_default_def getitem_def)

lemma tx_lines_rest:
  "tx_lines U (f\<lparr>rest := x\<rparr>) cur (tx\<lparr>rest := y\<rparr>) = tx_lines U f cur tx"
  unfolding tx_lines_def get_rest by (rule refl)

lemma tx_loop_rest:
  "tx_loop U (f\<lparr>rest := x\<rparr>) cur lines (map (\<lambda>r. r\<lparr>rest := y\<rparr>) txs) = tx_loop U f cur lines txs"
  by (induction txs arbitrary: lines) (simp_all add: tx_lines_rest)

lemma statement_lines_rest:
  assumes "rows \<noteq> []"
  shows "statement_lines U (map (\<lambda>r. r\<lparr>rest := None\<rparr>) rows) iban = statement_lines U rows iban"
  unfolding statement_lines_def Let_def hd_map [OF assms] last_map [OF assms] rev_map get_rest tx_loop_rest
  by (rule refl)

subsection \<open>C1: the order of the records\<close>

lemma run_three_rows:
  "revolut_to_mt940 ascii_tables
    (lit ''Date completed (UTC),Amount,Balance'' @ [10] @
     lit ''2024-01-20,-5.00,95.00'' @ [10] @
     lit ''2024-01-10,-20.00,100.00'' @ [10] @
     lit ''2024-01-01,120.00,120.00'' @ [10])
    (lit ''DE12'') =
   Inr (join [10]
      [lit '':20:MT940'',
       lit '':25:/DE12'',
       lit '':28C:1'',
       lit '':60F:C240101EUR120,00'',
       lit '':61:2401010101C120,00N119NONREF//'',
       lit ''119 0'',
       lit '':86:020~00119'',
       lit ''~60'' @ [8364],
       lit ''~63'' @ [8364],
       lit '':61:2401100110D20,00N119NONREF//'',
       lit ''119 0'',
       lit '':86:020~00119'',
       lit ''~60'' @ [8364],
       lit ''~63'' @ [8364],
       lit '':61:2401200120D5,00N119NONREF//'',
       lit ''119 0'',
       lit '':86:020~00119'',
       lit ''~60'' @ [8364],
       lit ''~63'' @ [8364],
       lit '':62F:C240120EUR95,00'',
       lit '':64:C240131EUR95,00'',
       lit ''-''])"
  by (simp add: run_defs)

text \<open>
  C1. Whenever a statement is produced, the rows read from the input are not empty. The
  last row in the order of the input gives the opening date and the opening balance,
  from its fields \<open>Date completed (UTC)\<close> and \<open>Balance\<close>, and the first row gives the
  closing date and the closing balance. Between the opening-balance line and the
  closing-balance line stands one block of lines per row, and the block at position \<open>i\<close>
  is the block of the row at position \<open>i\<close> counted from the end: the rows are taken in
  reverse of the given order.
\<close>

theorem opening_last_closing_first:
  assumes "revolut_to_mt940 U csv_content iban = Inr out"
  shows "\<exists>rows cur t od opening_str t' cd closing_str blocks.
       DictReader csv_content = Inr rows \<and> rows \<noteq> [] \<and>
       cur = upper U (strip (or_str (py_or (get (hd rows) (lit ''Payment currency''))
                                           (get (last rows) (lit ''Payment currency'')))
                                    (lit ''EUR''))) \<and>
       getitem (last rows) (lit ''Date completed (UTC)'') = Inr (Some t) \<and>
       strptime U t = Inr od \<and>
       fmt_amount (parse_decimal U (get_default (last rows) (lit ''Balance'') (lit ''0''))) =
         Inr opening_str \<and>
       getitem (hd rows) (lit ''Date completed (UTC)'') = Inr (Some t') \<and>
       strptime U t' = Inr cd \<and>
       fmt_amount (parse_decimal U (get_default (hd rows) (lit ''Balance'') (lit ''0''))) =
         Inr closing_str \<and>
       length blocks = length rows \<and>
       (\<forall>i < length rows.
          tx_lines U (last rows) cur (rows ! (length rows - 1 - i)) = Inr (blocks ! i)) \<and>
       out = join [10]
         ([lit '':20:MT940'', lit '':25:/'' @ replace 32 [] iban, lit '':28C:1'',
           lit '':60F:C'' @ strftime_yymmdd od @ cur @ opening_str] @
          concat blocks @
          [lit '':62F:C'' @ strftime_yymmdd cd @ cur @ closing_str,
           lit '':64:C'' @ strftime_yymmdd (od\<lparr>day := days_in_month (year od) (month od)\<rparr>) @
             cur @ closing_str,
           lit ''-''])"
proof -
  from assms obtain rows ls where rows: "DictReader csv_content = Inr rows" and ne: "rows \<noteq> []"
    and ls: "statement_lines U rows iban = Inr ls" and out: "out = join [10] ls"
    by (auto simp: revolut_Inr)
  define cur where "cur = upper U (strip (or_str (py_or (get (hd rows) (lit ''Payment currency''))
                                                        (get (last rows) (lit ''Payment currency'')))
                                                 (lit ''EUR'')))"
  from ls obtain t od t' cd opening_str closing_str blocks where f:
    "getitem (last rows) (lit ''Date completed (UTC)'') = Inr (Some t)"
    "strptime U t = Inr od"
    "getitem (hd rows) (lit ''Date completed (UTC)'') = Inr (Some t')"
    "strptime U t' = Inr cd"
    "fmt_amount (parse_decimal U (get_default (last rows) (lit ''Balance'') (lit ''0''))) = Inr opening_str"
    "fmt_amount (parse_decimal U (get_default (hd rows) (lit ''Balance'') (lit ''0''))) = Inr closing_str"
    and blocks: "map (tx_lines U (last rows) cur) (rev rows) = map Inr blocks"
    and eq: "ls = [lit '':20:MT940'', lit '':25:/'' @ replace 32 [] iban, lit '':28C:1'',
               lit '':60F:C'' @ strftime_yymmdd od @ cur @ opening_str] @ concat blocks @
              [lit '':62F:C'' @ strftime_yymmdd cd @ cur @ closing_str,
               lit '':64:C'' @ strftime_yymmdd (od\<lparr>day := days_in_month (year od) (month od)\<rparr>) @
                 cur @ closing_str,
               lit ''-'']"
    unfolding cur_def by (rule statement_lines_Inr)
  from blocks have len: "length blocks = length rows"
    by (metis length_map length_rev)
  have nth: "tx_lines U (last rows) cur (rows ! (length rows - 1 - i)) = Inr (blocks ! i)"
    if "i < length rows" for i
  proof -
    have "map (tx_lines U (last rows) cur) (rev rows) ! i = map Inr blocks ! i"
      by (simp only: blocks)
    with that len have "tx_lines U (last rows) cur (rev rows ! i) = Inr (blocks ! i)"
      by simp
    with that show ?thesis by (simp add: rev_nth)
  qed
  have all: "\<forall>i < length rows.
          tx_lines U (last rows) cur (rows ! (length rows - 1 - i)) = Inr (blocks ! i)"
    using nth by blast
  have out': "out = join [10]
         ([lit '':20:MT940'', lit '':25:/'' @ replace 32 [] iban, lit '':28C:1'',
           lit '':60F:C'' @ strftime_yymmdd od @ cur @ opening_str] @
          concat blocks @
          [lit '':62F:C'' @ strftime_yymmdd cd @ cur @ closing_str,
           lit '':64:C'' @ strftime_yymmdd (od\<lparr>day := days_in_month (year od) (month od)\<rparr>) @
             cur @ closing_str,
           lit ''-''])"
    unfolding out eq ..
  from rows ne cur_def f len all out' show ?thesis by blast
qed

text \<open>
  The theorem at three rows dated 20, 10 and 1 January 2024, in this order: the blocks
  come out in the order 1, 10, 20 January, the opening balance 120,00 is the one of the
  row of 1 January and the closing balance 95,00 the one of the row of 20 January.
\<close>

theorem opening_last_closing_first_witness:
  "revolut_to_mt940 ascii_tables
    (lit ''Date completed (UTC),Amount,Balance'' @ [10] @
     lit ''2024-01-20,-5.00,95.00'' @ [10] @
     lit ''2024-01-10,-20.00,100.00'' @ [10] @
     lit ''2024-01-01,120.00,120.00'' @ [10])
    (lit ''DE12'') =
   Inr (join [10]
      [lit '':20:MT940'',
       lit '':25:/DE12'',
       lit '':28C:1'',
       lit '':60F:C240101EUR120,00'',
       lit '':61:2401010101C120,00N119NONREF//'',
       lit ''119 0'',
       lit '':86:020~00119'',
       lit ''~60'' @ [8364],
       lit ''~63'' @ [8364],
       lit '':61:2401100110D20,00N119NONREF//'',
       lit ''119 0'',
       lit '':86:020~00119'',
       lit ''~60'' @ [8364],
       lit ''~63'' @ [8364],
       lit '':61:2401200120D5,00N119NONREF//'',
       lit ''119 0'',
       lit '':86:020~00119'',
       lit ''~60'' @ [8364],
       lit ''~63'' @ [8364],
       lit '':62F:C240120EUR95,00'',
       lit '':64:C240131EUR95,00'',
       lit ''-'']) \<and>
   (\<exists>rows cur t od opening_str t' cd closing_str blocks.
       DictReader
         (lit ''Date completed (UTC),Amount,Balance'' @ [10] @
     lit ''2024-01-20,-5.00,95.00'' @ [10] @
     lit ''2024-01-10,-20.00,100.00'' @ [10] @
     lit ''2024-01-01,120.00,120.00'' @ [10]) = Inr rows \<and> rows \<noteq> [] \<and>
       cur = upper ascii_tables
               (strip (or_str (py_or (get (hd rows) (lit ''Payment currency''))
                                     (get (last rows) (lit ''Payment currency'')))
                              (lit ''EUR''))) \<and>
       getitem (last rows) (lit ''Date completed (UTC)'') = Inr (Some t) \<and>
       strptime ascii_tables t = Inr od \<and>
       fmt_amount (parse_decimal ascii_tables
                     (get_default (last rows) (lit ''Balance'') (lit ''0''))) = Inr opening_str \<and>
       getitem (hd rows) (lit ''Date completed (UTC)'') = Inr (Some t') \<and>
       strptime ascii_tables t' = Inr cd \<and>
       fmt_amount (parse_decimal ascii_tables
                     (get_default (hd rows) (lit ''Balance'') (lit ''0''))) = Inr closing_str \<and>
       length blocks = length rows \<and>
       (\<forall>i < length rows.
          tx_lines ascii_tables (last rows) cur (rows ! (length rows - 1 - i)) = Inr (blocks ! i)) \<and>
       join [10]
      [lit '':20:MT940'',
       lit '':25:/DE12'',
       lit '':28C:1'',
       lit '':60F:C240101EUR120,00'',
       lit '':61:2401010101C120,00N119NONREF//'',
       lit ''119 0'',
       lit '':86:020~00119'',
       lit ''~60'' @ [8364],
       lit ''~63'' @ [8364],
       lit '':61:2401100110D20,00N119NONREF//'',
       lit ''119 0'',
       lit '':86:020~00119'',
       lit ''~60'' @ [8364],
       lit ''~63'' @ [8364],
       lit '':61:2401200120D5,00N119NONREF//'',
       lit ''119 0'',
       lit '':86:020~00119'',
       lit ''~60'' @ [8364],
       lit ''~63'' @ [8364],
       lit '':62F:C240120EUR95,00'',
       lit '':64:C240131EUR95,00'',
       lit ''-''] =
       join [10]
         ([lit '':20:MT940'', lit '':25:/'' @ replace 32 [] (lit ''DE12''), lit '':28C:1'',
           lit '':60F:C'' @ strftime_yymmdd od @ cur @ opening_str] @
          concat blocks @
          [lit '':62F:C'' @ strftime_yymmdd cd @ cur @ closing_str,
           lit '':64:C'' @ strftime_yymmdd (od\<lparr>day := days_in_month (year od) (month od)\<rparr>) @
             cur @ closing_str,
           lit ''-'']))"
  by (rule conjI [OF run_three_rows opening_last_closing_first [OF run_three_rows]])

subsection \<open>C2: an input without rows\<close>

text \<open>
  C2, amended. The empty input raises the \<open>ValueError\<close> of the converter for a CSV
  without rows, whatever the account identifier is. So does an input that is a header
  row only, unless the csv reader fails on it: then the error of the csv reader is
  raised, and that happens only when the input is longer than the field size limit of
  the csv module, 131072 characters. In neither case is a statement produced. An input
  that is a header row only is a text \<open>h\<close> without carriage return or newline in it,
  followed by any number of carriage returns and newlines. (The claim promises the
  \<open>ValueError\<close> for every header row.)
\<close>

theorem empty_input_rejected:
  "revolut_to_mt940 U [] iban = Inl EmptyInputError \<and>
   (\<forall>h t :: str. 10 \<notin> set h \<and> 13 \<notin> set h \<and> set t \<subseteq> {10, 13} \<longrightarrow>
      revolut_to_mt940 U (h @ t) iban = Inl EmptyInputError \<or>
      revolut_to_mt940 U (h @ t) iban = Inl CsvError \<and> field_limit < length h + length t)"
proof (intro conjI allI impI)
  show "revolut_to_mt940 U [] iban = Inl EmptyInputError"
    by (simp add: revolut_to_mt940_def DictReader_def csv_reader_def)
next
  fix h t :: str
  assume "10 \<notin> set h \<and> 13 \<notin> set h \<and> set t \<subseteq> {10, 13}"
  then have "(csv_reader (h @ t) = Inl CsvError \<and> field_limit < length h + length t) \<or>
         csv_reader (h @ t) = Inr [] \<or>
         (\<exists>rec n. csv_reader (h @ t) = Inr (rec # replicate n []))"
    by (intro header_only_records) simp_all
  then have "(DictReader (h @ t) = Inl CsvError \<and> field_limit < length h + length t) \<or>
    DictReader (h @ t) = Inr []"
    by (auto simp: DictReader_def)
  then show "revolut_to_mt940 U (h @ t) iban = Inl EmptyInputError \<or>
      revolut_to_mt940 U (h @ t) iban = Inl CsvError \<and> field_limit < length h + length t"
    by (auto simp: revolut_to_mt940_def)
qed

text \<open>
  The claim fails at a header row of one field name of 131073 letters \<open>a\<close>: the csv
  reader raises its error for a field beyond the field size limit, which is not the
  \<open>ValueError\<close> for a CSV without rows.
\<close>

theorem long_header_counterexample:
  "revolut_to_mt940 ascii_tables (replicate 131073 97) (lit ''DE12'') = Inl CsvError \<and>
   revolut_to_mt940 ascii_tables (replicate 131073 97) (lit ''DE12'') \<noteq> Inl EmptyInputError"
proof -
  have "revolut_to_mt940 ascii_tables (replicate 131073 97) (lit ''DE12'') = Inl CsvError"
    by (rule long_header_error) (simp add: field_limit_def)
  then show ?thesis by simp
qed

text \<open>
  The amended statement at the header \<open>Date completed (UTC),Amount,Balance\<close> followed by
  a carriage return and a newline: 37 characters, so the \<open>ValueError\<close> is raised.
\<close>

theorem empty_input_rejected_witness:
  "10 \<notin> set (lit ''Date completed (UTC),Amount,Balance'') \<and>
   13 \<notin> set (lit ''Date completed (UTC),Amount,Balance'') \<and>
   set [13, 10 :: nat] \<subseteq> {10, 13} \<and>
   revolut_to_mt940 ascii_tables [] (lit ''DE12'') = Inl EmptyInputError \<and>
   revolut_to_mt940 ascii_tables (lit ''Date completed (UTC),Amount,Balance'' @ [13, 10]) (lit ''DE12'') =
     Inl EmptyInputError"
proof -
  have h: "10 \<notin> set (lit ''Date completed (UTC),Amount,Balance'')"
    "13 \<notin> set (lit ''Date completed (UTC),Amount,Balance'')"
    "set [13, 10 :: nat] \<subseteq> {10, 13}"
    "\<not> field_limit < length (lit ''Date completed (UTC),Amount,Balance'') + length [13, 10 :: nat]"
    by (simp_all add: lit_def field_limit_def)
  with empty_input_rejected [of ascii_tables "lit ''DE12''"] show ?thesis by blast
qed

subsection \<open>C3: the format of an amount\<close>

lemma fmt_amount_eighth: "fmt_amount (Finite False 125 (- 3)) = Inr (lit ''0,12'')"
  by (simp add: run_defs)

text \<open>
  C3, amended. For a finite decimal number for which \<open>_fmt_amount\<close> returns, the result
  is a minus sign when the sign of the number is set, then the digits of a number \<open>n\<close> of
  hundredths: at least one digit, a comma and exactly two digits. \<open>n\<close> hundredths is the
  absolute value rounded half to even: it differs from the absolute value by at most half
  a hundredth, and when by exactly half a hundredth, \<open>n\<close> is even. (The claim says half
  up; the source rounds with the default context of \<open>decimal\<close>, which is
  \<open>ROUND_HALF_EVEN\<close>.)
\<close>

theorem fmt_amount_half_even:
  assumes "fmt_amount (Finite sg c e) = Inr s"
  shows "\<exists>n. s = (if sg then lit ''-'' else []) @ show_nat (n div 100) @ lit '','' @ pad2 (n mod 100) \<and>
             \<bar>of_nat n / 100 - magnitude c e\<bar> \<le> 1 / 200 \<and>
             (\<bar>of_nat n / 100 - magnitude c e\<bar> = 1 / 200 \<longrightarrow> even n)"
  using fmt_amount_Finite [OF assms] rescale_nearest [of c e]
  by (intro exI [of _ "rescale c e (- 2)"]) (simp add: lit_def)

text \<open>
  The claim fails at 0.125, the number \<open>Decimal("0.125")\<close> with coefficient 125 and exponent
  \<open>-3\<close>: the result is \<open>0,12\<close>, and not \<open>0,13\<close>.
\<close>

theorem half_up_counterexample:
  "Decimal ascii_tables (lit ''0.125'') = Some (Finite False 125 (- 3)) \<and>
   fmt_amount (Finite False 125 (- 3)) = Inr (lit ''0,12'') \<and>
   fmt_amount (Finite False 125 (- 3)) \<noteq> Inr (lit ''0,13'')"
  by (simp add: run_defs)

text \<open>The amended statement at the same number.\<close>

theorem fmt_amount_half_even_witness:
  "fmt_amount (Finite False 125 (- 3)) = Inr (lit ''0,12'') \<and>
   (\<exists>n. lit ''0,12'' =
          (if False then lit ''-'' else []) @ show_nat (n div 100) @ lit '','' @ pad2 (n mod 100) \<and>
        \<bar>of_nat n / 100 - magnitude 125 (- 3)\<bar> \<le> 1 / 200 \<and>
        (\<bar>of_nat n / 100 - magnitude 125 (- 3)\<bar> = 1 / 200 \<longrightarrow> even n))"
  by (rule conjI [OF fmt_amount_eighth fmt_amount_half_even [OF fmt_amount_eighth]])

subsection \<open>C4: rows with more fields than the header\<close>

lemma records_long_row:
  "csv_reader
    (lit ''Date completed (UTC),Amount,Balance'' @ [10] @
     lit ''2024-01-15,1,234.50,100.00'' @ [10]) =
   Inr [[lit ''Date completed (UTC)'',
       lit ''Amount'',
       lit ''Balance''],
        [lit ''2024-01-15'',
       lit ''1'',
       lit ''234.50'',
       lit ''100.00'']]"
  by (simp add: run_defs)

lemma records_cut_row:
  "csv_reader
    (lit ''Date completed (UTC),Amount,Balance'' @ [10] @
     lit ''2024-01-15,1,234.50'' @ [10]) =
   Inr [[lit ''Date completed (UTC)'',
       lit ''Amount'',
       lit ''Balance''],
        [lit ''2024-01-15'',
       lit ''1'',
       lit ''234.50'']]"
  by (simp add: run_defs)

lemma run_long_row:
  "revolut_to_mt940 ascii_tables
    (lit ''Date completed (UTC),Amount,Balance'' @ [10] @
     lit ''2024-01-15,1,234.50,100.00'' @ [10])
    (lit ''DE12'') =
   Inr (join [10]
      [lit '':20:MT940'',
       lit '':25:/DE12'',
       lit '':28C:1'',
       lit '':60F:C240115EUR234,50'',
       lit '':61:2401150115C1,00N119NONREF//'',
       lit ''119 0'',
       lit '':86:020~00119'',
       lit ''~60'' @ [8364],
       lit ''~63'' @ [8364],
       lit '':62F:C240115EUR234,50'',
       lit '':64:C240131EUR234,50'',
       lit ''-''])"
  by (simp add: run_defs)

text \<open>
  C4, amended. A row with more fields than the header has names raises nothing: its
  first fields go to the names of the header in order, the fields beyond go under the
  rest key of the row, which the converter never reads, and the result is the one for the
  input whose rows are cut to the length of the header. So for two inputs with the same
  non-empty header, the records of the second being the records of the first cut to the
  length of the header, the converter returns the same. (The source has no check of the
  number of fields and no error for it.)
\<close>

theorem surplus_fields_ignored:
  assumes "csv_reader text = Inr (fieldnames # recs)"
    and "csv_reader text' = Inr (fieldnames # map (take (length fieldnames)) recs)"
    and "fieldnames \<noteq> []"
  shows "revolut_to_mt940 U text iban = revolut_to_mt940 U text' iban"
proof -
  define rows where "rows = map (make_row fieldnames) (filter (\<lambda>r. r \<noteq> []) recs)"
  from assms(3) have ne: "take (length fieldnames) r \<noteq> [] \<longleftrightarrow> r \<noteq> []" for r :: "str list"
    by (cases r; cases fieldnames) simp_all
  have "filter (\<lambda>r. r \<noteq> []) (map (take (length fieldnames)) recs) =
        map (take (length fieldnames)) (filter (\<lambda>r. r \<noteq> []) recs)"
    using assms(3) by (simp add: filter_map comp_def ne)
  then have rows': "map (make_row fieldnames)
                      (filter (\<lambda>r. r \<noteq> []) (map (take (length fieldnames)) recs)) =
                    map (\<lambda>r. r\<lparr>rest := None\<rparr>) rows"
    by (simp add: rows_def comp_def make_row_take)
  from assms(1) have a: "DictReader text = Inr rows"
    by (simp add: DictReader_def rows_def)
  from assms(2) have b: "DictReader text' = Inr (map (\<lambda>r. r\<lparr>rest := None\<rparr>) rows)"
    by (simp add: DictReader_def rows')
  show ?thesis
    by (cases "rows = []") (simp_all add: revolut_to_mt940_def a b statement_lines_rest)
qed

text \<open>
  The claim fails at a row whose amount 1,234.50 is written with a comma and without
  quotes, which makes four fields under three names: no error is raised, the amount of
  the statement is 1,00 and its balance 234,50, and the field 100.00 is dropped.
\<close>

theorem surplus_field_counterexample:
  "revolut_to_mt940 ascii_tables
    (lit ''Date completed (UTC),Amount,Balance'' @ [10] @
     lit ''2024-01-15,1,234.50,100.00'' @ [10])
    (lit ''DE12'') =
   Inr (join [10]
      [lit '':20:MT940'',
       lit '':25:/DE12'',
       lit '':28C:1'',
       lit '':60F:C240115EUR234,50'',
       lit '':61:2401150115C1,00N119NONREF//'',
       lit ''119 0'',
       lit '':86:020~00119'',
       lit ''~60'' @ [8364],
       lit ''~63'' @ [8364],
       lit '':62F:C240115EUR234,50'',
       lit '':64:C240131EUR234,50'',
       lit ''-''])"
  by (rule run_long_row)

text \<open>The amended statement at the same input and the input with the row cut to three fields.\<close>

theorem surplus_fields_ignored_witness:
  "csv_reader
    (lit ''Date completed (UTC),Amount,Balance'' @ [10] @
     lit ''2024-01-15,1,234.50,100.00'' @ [10]) =
   Inr ([lit ''Date completed (UTC)'',
       lit ''Amount'',
       lit ''Balance''] #
        [[lit ''2024-01-15'',
       lit ''1'',
       lit ''234.50'',
       lit ''100.00'']]) \<and>
   csv_reader
    (lit ''Date completed (UTC),Amount,Balance'' @ [10] @
     lit ''2024-01-15,1,234.50'' @ [10]) =
   Inr ([lit ''Date completed (UTC)'',
       lit ''Amount'',
       lit ''Balance''] #
        map (take (length [lit ''Date completed (UTC)'',
       lit ''Amount'',
       lit ''Balance'']))
          [[lit ''2024-01-15'',
       lit ''1'',
       lit ''234.50'',
       lit ''100.00'']]) \<and>
   [lit ''Date completed (UTC)'',
       lit ''Amount'',
       lit ''Balance''] \<noteq> [] \<and>
   revolut_to_mt940 ascii_tables
    (lit ''Date completed (UTC),Amount,Balance'' @ [10] @
     lit ''2024-01-15,1,234.50,100.00'' @ [10])
    (lit ''DE12'') =
   revolut_to_mt940 ascii_tables
    (lit ''Date completed (UTC),Amount,Balance'' @ [10] @
     lit ''2024-01-15,1,234.50'' @ [10])
    (lit ''DE12'')"
proof -
  have a: "csv_reader
    (lit ''Date completed (UTC),Amount,Balance'' @ [10] @
     lit ''2024-01-15,1,234.50,100.00'' @ [10]) =
   Inr ([lit ''Date completed (UTC)'',
       lit ''Amount'',
       lit ''Balance''] #
        [[lit ''2024-01-15'',
       lit ''1'',
       lit ''234.50'',
       lit ''100.00'']])"
    by (rule records_long_row)
  have b: "csv_reader
    (lit ''Date completed (UTC),Amount,Balance'' @ [10] @
     lit ''2024-01-15,1,234.50'' @ [10]) =
   Inr ([lit ''Date completed (UTC)'',
       lit ''Amount'',
       lit ''Balance''] #
        map (take (length [lit ''Date completed (UTC)'',
       lit ''Amount'',
       lit ''Balance'']))
          [[lit ''2024-01-15'',
       lit ''1'',
       lit ''234.50'',
       lit ''100.00'']])"
    by (subst records_cut_row) simp
  have c: "[lit ''Date completed (UTC)'',
       lit ''Amount'',
       lit ''Balance''] \<noteq> []"
    by simp
  from a b c surplus_fields_ignored [OF a b c, of ascii_tables "lit ''DE12''"]
  show ?thesis by (intro conjI)
qed

subsection \<open>C5: chunks of a text\<close>

text \<open>
  C5. For every string, the chunks of width 35 concatenate to the normalised string
  (carriage returns and newlines replaced by spaces, then trimmed), every chunk but the
  last is exactly 35 code points long, and the empty string has no chunks.
\<close>

theorem chunks_exact:
  "(\<exists>cs. split_text_chunks t 35 = Inr cs \<and>
        concat cs = strip (replace 10 [32] (replace 13 [32] t)) \<and>
        (\<forall>c \<in> set (butlast cs). length c = 35)) \<and>
   split_text_chunks [] 35 = Inr []"
proof
  define u where "u = strip (replace 10 [32] (replace 13 [32] t))"
  define cs where "cs = map (\<lambda>i. slice u i (i + 35)) (range_step (length u) 35)"
  have eq: "split_text_chunks t 35 = Inr (if u = [] then [] else cs)"
    by (simp add: split_text_chunks_def u_def cs_def Let_def)
  have cat: "concat cs = u" unfolding cs_def by (rule concat_chunks) simp
  have full: "\<forall>c \<in> set (butlast cs). length c = 35"
    unfolding cs_def map_butlast [symmetric] by (auto intro: full_chunks)
  show "\<exists>cs. split_text_chunks t 35 = Inr cs \<and>
        concat cs = strip (replace 10 [32] (replace 13 [32] t)) \<and>
        (\<forall>c \<in> set (butlast cs). length c = 35)"
    using eq cat full unfolding u_def [symmetric] by (cases "u = []") auto
  show "split_text_chunks [] 35 = Inr []"
    by (simp add: split_text_chunks_def strip_def replace_def)
qed

theorem chunks_exact_witness:
  "split_text_chunks (lit '' 0123456789012345678901234567890123456789'' @ [13, 10]) 35 =
     Inr [lit ''01234567890123456789012345678901234'', lit ''56789''] \<and>
   (\<exists>cs. split_text_chunks (lit '' 0123456789012345678901234567890123456789'' @ [13, 10]) 35 = Inr cs \<and>
        concat cs = strip (replace 10 [32] (replace 13 [32]
                      (lit '' 0123456789012345678901234567890123456789'' @ [13, 10]))) \<and>
        (\<forall>c \<in> set (butlast cs). length c = 35))"
proof -
  have "split_text_chunks (lit '' 0123456789012345678901234567890123456789'' @ [13, 10]) 35 =
     Inr [lit ''01234567890123456789012345678901234'', lit ''56789'']"
    by (simp add: split_text_chunks_def lit_def replace_def strip_def is_space_def
          range_step_def slice_def upt_rec)
  with chunks_exact [of "lit '' 0123456789012345678901234567890123456789'' @ [13, 10]"]
  show ?thesis by blast
qed

subsection \<open>C6: the direction letter and the amount of a transaction line\<close>

lemma block_debit:
  "tx_lines ascii_tables
     (make_row
       [lit ''Date completed (UTC)'',
         lit ''Amount'']
       [lit ''2024-01-15'',
         lit ''-12.50''])
     (lit ''EUR'')
     (make_row
       [lit ''Date completed (UTC)'',
         lit ''Amount'']
       [lit ''2024-01-15'',
         lit ''-12.50'']) =
   Inr [lit '':61:2401150115D12,50N119NONREF//'',
       lit ''119 0'',
       lit '':86:020~00119'',
       lit ''~60'' @ [8364],
       lit ''~63'' @ [8364]]"
  by (simp add: run_defs)

text \<open>
  C6. When the block of a record is produced, the amount resolved from the fields
  \<open>Amount\<close> and \<open>Orig amount\<close> is a finite number, and the first line of the block is
  \<open>:61:\<close>, ten characters of dates, the direction letter, the amount and \<open>N\<close> with the
  rest. The direction letter is \<open>D\<close> exactly when the value of the amount is below zero,
  and \<open>C\<close> otherwise. The amount in the line is a number \<open>n\<close> of hundredths, written as
  digits, a comma and two digits, with no sign, and \<open>n\<close> hundredths is the absolute value
  of the amount in two fractional digits: for an amount whose coefficient has at most 28
  digits it differs from the absolute value by at most half a hundredth, and when by
  exactly half a hundredth, \<open>n\<close> is even. An amount of more digits is first rounded to 28
  digits by \<open>abs\<close>; then \<open>n\<close> hundredths differs from the absolute value by at most half
  a hundredth and half a thousandth.
\<close>

theorem direction_letter:
  assumes "tx_lines U first_row cur tx = Inr ls"
  defines "amount \<equiv> parse_decimal U (Some (or_str (py_or (get tx (lit ''Amount''))
                                                            (get tx (lit ''Orig amount''))) (lit ''0'')))"
  shows "\<exists>sg c e c' e' n dates amt rest tail.
           amount = Finite sg c e \<and>
           dec_abs amount = Inr (Finite False c' e') \<and>
           n = rescale c' e' (- 2) \<and>
           \<bar>of_nat n / 100 - \<bar>finite_value sg c e\<bar>\<bar> \<le> 11 / 2000 \<and>
           (c < 10 ^ prec \<longrightarrow>
              \<bar>of_nat n / 100 - \<bar>finite_value sg c e\<bar>\<bar> \<le> 1 / 200 \<and>
              (\<bar>of_nat n / 100 - \<bar>finite_value sg c e\<bar>\<bar> = 1 / 200 \<longrightarrow> even n)) \<and>
           amt = show_nat (n div 100) @ [44] @ pad2 (n mod 100) \<and>
           (\<forall>ch \<in> set amt. is_ascii_digit ch \<or> ch = 44) \<and>
           length dates = 10 \<and>
           ls = (lit '':61:'' @ dates @ (if finite_value sg c e < 0 then lit ''D'' else lit ''C'') @ amt @
                 lit ''N'' @ rest) # tail"
proof -
  from assms(1) obtain d negative amount_abs amount_str rest tail where
    neg: "less_zero amount = Inr negative" and ab: "dec_abs amount = Inr amount_abs"
    and fmt: "fmt_amount amount_abs = Inr amount_str"
    and ls: "ls = (lit '':61:'' @ (strftime_yymmdd d @ strftime_mmdd d) @
                   (if negative then lit ''D'' else lit ''C'') @ amount_str @ lit ''N'' @ rest) # tail"
    unfolding amount_def by (rule tx_lines_Inr) simp
  from dec_abs_cases [OF neg ab] show ?thesis
  proof (elim disjE exE conjE)
    fix sg assume "amount_abs = Infinity False"
    with fmt show ?thesis by (simp add: fmt_amount_special)
  next
    fix sg c e c' e'
    assume am: "amount = Finite sg c e" "negative = (sg \<and> c \<noteq> 0)" "amount_abs = Finite False c' e'"
    define n where "n = rescale c' e' (- 2)"
    define amt where "amt = show_nat (n div 100) @ [44] @ pad2 (n mod 100)"
    from fmt am(3) have fmt': "fmt_amount (Finite False c' e') = Inr amount_str" by simp
    from fmt_amount_Finite [OF this] have str: "amount_str = amt"
      unfolding amt_def n_def by simp
    have digits: "\<forall>ch \<in> set amt. is_ascii_digit ch \<or> ch = 44"
      unfolding amt_def using show_nat_digits pad2_digits [of "n mod 100"]
      by auto
    have len: "length (strftime_yymmdd d @ strftime_mmdd d) = 10"
      by (simp add: strftime_yymmdd_length strftime_mmdd_length)
    from ab am(3) have ab': "dec_abs amount = Inr (Finite False c' e')" by simp
    then have fx: "dec_fix (Finite False c e) = Inr (Finite False c' e')"
      unfolding am(1) by (simp add: dec_abs_def check_nan_def)
    from fmt' obtain q where q: "quantize2 (Finite False c' e') = Inr q"
      by (auto simp: fmt_amount_def bind_eq_Inr)
    note val = abs_quantize_value [OF fx q, folded n_def, folded abs_finite_value [of sg c e]]
    from am(2) have neg': "negative = (finite_value sg c e < 0)"
      by (simp only: finite_value_negative)
    from am(1) ab' n_def val amt_def digits len ls [unfolded str neg']
    show ?thesis by blast
  qed
qed

text \<open>The theorem at a record of 15 January 2024 with the amount \<open>-12.50\<close>.\<close>

theorem direction_letter_witness:
  "tx_lines ascii_tables
     (make_row
       [lit ''Date completed (UTC)'',
         lit ''Amount'']
       [lit ''2024-01-15'',
         lit ''-12.50''])
     (lit ''EUR'')
     (make_row
       [lit ''Date completed (UTC)'',
         lit ''Amount'']
       [lit ''2024-01-15'',
         lit ''-12.50'']) =
   Inr [lit '':61:2401150115D12,50N119NONREF//'',
       lit ''119 0'',
       lit '':86:020~00119'',
       lit ''~60'' @ [8364],
       lit ''~63'' @ [8364]] \<and>
   (\<exists>sg c e c' e' n dates amt rest tail.
      parse_decimal ascii_tables
        (Some (or_str (py_or (get (make_row
       [lit ''Date completed (UTC)'',
         lit ''Amount'']
       [lit ''2024-01-15'',
         lit ''-12.50'']) (lit ''Amount''))
                             (get (make_row
       [lit ''Date completed (UTC)'',
         lit ''Amount'']
       [lit ''2024-01-15'',
         lit ''-12.50'']) (lit ''Orig amount''))) (lit ''0''))) =
        Finite sg c e \<and>
      dec_abs (parse_decimal ascii_tables
        (Some (or_str (py_or (get (make_row
       [lit ''Date completed (UTC)'',
         lit ''Amount'']
       [lit ''2024-01-15'',
         lit ''-12.50'']) (lit ''Amount''))
                             (get (make_row
       [lit ''Date completed (UTC)'',
         lit ''Amount'']
       [lit ''2024-01-15'',
         lit ''-12.50'']) (lit ''Orig amount''))) (lit ''0'')))) =
        Inr (Finite False c' e') \<and>
      n = rescale c' e' (- 2) \<and>
      \<bar>of_nat n / 100 - \<bar>finite_value sg c e\<bar>\<bar> \<le> 11 / 2000 \<and>
      (c < 10 ^ prec \<longrightarrow>
         \<bar>of_nat n / 100 - \<bar>finite_value sg c e\<bar>\<bar> \<le> 1 / 200 \<and>
         (\<bar>of_nat n / 100 - \<bar>finite_value sg c e\<bar>\<bar> = 1 / 200 \<longrightarrow> even n)) \<and>
      amt = show_nat (n div 100) @ [44] @ pad2 (n mod 100) \<and>
      (\<forall>ch \<in> set amt. is_ascii_digit ch \<or> ch = 44) \<and>
      length dates = 10 \<and>
      [lit '':61:2401150115D12,50N119NONREF//'',
       lit ''119 0'',
       lit '':86:020~00119'',
       lit ''~60'' @ [8364],
       lit ''~63'' @ [8364]] =
      (lit '':61:'' @ dates @ (if finite_value sg c e < 0 then lit ''D'' else lit ''C'') @ amt @
       lit ''N'' @ rest) # tail)"
  by (rule conjI [OF block_debit direction_letter [OF block_debit]])

subsection \<open>C7: the end of the statement\<close>

lemma run_one_row:
  "revolut_to_mt940 ascii_tables
    (lit ''Date completed (UTC)'' @ [10] @
     lit ''2024-01-15'' @ [10])
    (lit ''DE12'') =
   Inr (join [10]
      [lit '':20:MT940'',
       lit '':25:/DE12'',
       lit '':28C:1'',
       lit '':60F:C240115EUR0,00'',
       lit '':61:2401150115C0,00N119NONREF//'',
       lit ''119 0'',
       lit '':86:020~00119'',
       lit ''~60'' @ [8364],
       lit ''~63'' @ [8364],
       lit '':62F:C240115EUR0,00'',
       lit '':64:C240131EUR0,00'',
       lit ''-''])"
  by (simp add: run_defs)

text \<open>
  C7, amended. A statement that is produced is its lines joined by single newlines; the
  last line is the marker \<open>-\<close>, and the string ends with that marker: a newline stands
  before the marker and nothing, no newline either, after it. (The claim says that a
  final newline follows the marker; the source returns \<open>"\n".join(lines)\<close>.)
\<close>

theorem ends_with_marker:
  assumes "revolut_to_mt940 U csv_content iban = Inr out"
  shows "\<exists>ls. ls \<noteq> [] \<and> out = join [10] (ls @ [lit ''-'']) \<and> out = join [10] ls @ [10] @ lit ''-''"
proof -
  from assms obtain rows ls where ls: "statement_lines U rows iban = Inr ls" and out: "out = join [10] ls"
    by (auto simp: revolut_Inr)
  from ls obtain a b where "ls = (lit '':20:MT940'' # a) @ [lit ''-'']"
    by (rule statement_lines_Inr) simp
  then obtain ls' where "ls = ls' @ [lit ''-'']" "ls' \<noteq> []" by blast
  with out show ?thesis by (auto simp: join_snoc)
qed

text \<open>
  The claim fails at an input of one row with a date: the statement ends with the marker,
  its last character is not a newline.
\<close>

theorem final_newline_counterexample:
  "revolut_to_mt940 ascii_tables
    (lit ''Date completed (UTC)'' @ [10] @
     lit ''2024-01-15'' @ [10])
    (lit ''DE12'') =
   Inr (join [10]
      [lit '':20:MT940'',
       lit '':25:/DE12'',
       lit '':28C:1'',
       lit '':60F:C240115EUR0,00'',
       lit '':61:2401150115C0,00N119NONREF//'',
       lit ''119 0'',
       lit '':86:020~00119'',
       lit ''~60'' @ [8364],
       lit ''~63'' @ [8364],
       lit '':62F:C240115EUR0,00'',
       lit '':64:C240131EUR0,00'',
       lit ''-'']) \<and>
   last (join [10]
      [lit '':20:MT940'',
       lit '':25:/DE12'',
       lit '':28C:1'',
       lit '':60F:C240115EUR0,00'',
       lit '':61:2401150115C0,00N119NONREF//'',
       lit ''119 0'',
       lit '':86:020~00119'',
       lit ''~60'' @ [8364],
       lit ''~63'' @ [8364],
       lit '':62F:C240115EUR0,00'',
       lit '':64:C240131EUR0,00'',
       lit ''-'']) \<noteq> 10"
  by (rule conjI [OF run_one_row]) (simp add: lit_def)

text \<open>The amended statement at the same input.\<close>

theorem ends_with_marker_witness:
  "revolut_to_mt940 ascii_tables
    (lit ''Date completed (UTC)'' @ [10] @
     lit ''2024-01-15'' @ [10])
    (lit ''DE12'') =
   Inr (join [10]
      [lit '':20:MT940'',
       lit '':25:/DE12'',
       lit '':28C:1'',
       lit '':60F:C240115EUR0,00'',
       lit '':61:2401150115C0,00N119NONREF//'',
       lit ''119 0'',
       lit '':86:020~00119'',
       lit ''~60'' @ [8364],
       lit ''~63'' @ [8364],
       lit '':62F:C240115EUR0,00'',
       lit '':64:C240131EUR0,00'',
       lit ''-'']) \<and>
   (\<exists>ls. ls \<noteq> [] \<and>
      join [10]
      [lit '':20:MT940'',
       lit '':25:/DE12'',
       lit '':28C:1'',
       lit '':60F:C240115EUR0,00'',
       lit '':61:2401150115C0,00N119NONREF//'',
       lit ''119 0'',
       lit '':86:020~00119'',
       lit ''~60'' @ [8364],
       lit ''~63'' @ [8364],
       lit '':62F:C240115EUR0,00'',
       lit '':64:C240131EUR0,00'',
       lit ''-''] = join [10] (ls @ [lit ''-'']) \<and>
      join [10]
      [lit '':20:MT940'',
       lit '':25:/DE12'',
       lit '':28C:1'',
       lit '':60F:C240115EUR0,00'',
       lit '':61:2401150115C0,00N119NONREF//'',
       lit ''119 0'',
       lit '':86:020~00119'',
       lit ''~60'' @ [8364],
       lit ''~63'' @ [8364],
       lit '':62F:C240115EUR0,00'',
       lit '':64:C240131EUR0,00'',
       lit ''-''] = join [10] ls @ [10] @ lit ''-'')"
  by (rule conjI [OF run_one_row ends_with_marker [OF run_one_row]])

subsection \<open>C8: the currency code\<close>

lemma run_four_letter_currency:
  "revolut_to_mt940 ascii_tables
    (lit ''Date completed (UTC),Payment currency'' @ [10] @
     lit ''2024-01-15,Euro'' @ [10])
    (lit ''DE12'') =
   Inr (join [10]
      [lit '':20:MT940'',
       lit '':25:/DE12'',
       lit '':28C:1'',
       lit '':60F:C240115EURO0,00'',
       lit '':61:2401150115C0,00N119NONREF//'',
       lit ''119 0'',
       lit '':86:020~00119'',
       lit ''~60EURO'',
       lit ''~63EURO'',
       lit '':62F:C240115EURO0,00'',
       lit '':64:C240131EURO0,00'',
       lit ''-''])"
  by (simp add: run_defs)

lemma run_lower_case_currency:
  "revolut_to_mt940 ascii_tables
    (lit ''Date completed (UTC),Payment currency'' @ [10] @
     lit ''2024-01-15, usd'' @ [10])
    (lit ''DE12'') =
   Inr (join [10]
      [lit '':20:MT940'',
       lit '':25:/DE12'',
       lit '':28C:1'',
       lit '':60F:C240115USD0,00'',
       lit '':61:2401150115C0,00N119NONREF//'',
       lit ''119 0'',
       lit '':86:020~00119'',
       lit ''~60USD'',
       lit ''~63USD'',
       lit '':62F:C240115USD0,00'',
       lit '':64:C240131USD0,00'',
       lit ''-''])"
  by (simp add: run_defs)

lemma records_lower_case_currency:
  "csv_reader
    (lit ''Date completed (UTC),Payment currency'' @ [10] @
     lit ''2024-01-15, usd'' @ [10]) =
   Inr [[lit ''Date completed (UTC)'',
           lit ''Payment currency''],
        [lit ''2024-01-15'',
           lit '' usd'']]"
  by (simp add: run_defs)

lemma rows_lower_case_currency:
  "DictReader
    (lit ''Date completed (UTC),Payment currency'' @ [10] @
     lit ''2024-01-15, usd'' @ [10]) =
   Inr [make_row [lit ''Date completed (UTC)'', lit ''Payment currency''] [lit ''2024-01-15'', lit '' usd'']]"
  unfolding DictReader_def records_lower_case_currency by simp

lemma upper_not_empty:
  assumes "t \<noteq> []" and "\<forall>c \<in> set t. to_upper U c \<noteq> []"
  shows "upper U t \<noteq> []"
  using assms by (cases t) (auto simp: upper_def)

text \<open>
  C8, amended. Take a statement that is produced from the rows of the input, and the
  field chosen for the currency: the field \<open>Payment currency\<close> of the first row when that
  is a non-empty string, else the one of the last row when that is a non-empty string,
  else \<open>EUR\<close>. When the chosen field is not white space only, the currency code is the
  chosen field trimmed and then put in upper case; it is not empty, as long as the
  upper-case table maps no character of it to the empty string, and it is \<open>EUR\<close> when
  neither row has a non-empty currency field. This code stands after the six digits of
  the date in the opening-balance line, the closing-balance line and the
  available-balance line, and the block of every row, in reverse order of the rows, ends
  with two lines that carry it, or the euro sign in place of \<open>EUR\<close>. (The claim says
  that the code has exactly three upper-case letters; the source does not check the
  field, and the code has the length and the characters of the trimmed field.)
\<close>

theorem currency_derivation:
  assumes "revolut_to_mt940 U csv_content iban = Inr out"
    and "DictReader csv_content = Inr rows"
    and "strip (case get (hd rows) (lit ''Payment currency'') of
                Some (c # cs) \<Rightarrow> c # cs
              | _ \<Rightarrow> (case get (last rows) (lit ''Payment currency'') of
                        Some (c # cs) \<Rightarrow> c # cs
                      | _ \<Rightarrow> lit ''EUR'')) \<noteq> []"
  shows "(\<exists>chosen cur symbol t od opening_str t' cd closing_str blocks.
         chosen =
           (case get (hd rows) (lit ''Payment currency'') of
              Some (c # cs) \<Rightarrow> c # cs
            | _ \<Rightarrow> (case get (last rows) (lit ''Payment currency'') of
                      Some (c # cs) \<Rightarrow> c # cs
                    | _ \<Rightarrow> lit ''EUR'')) \<and>
         cur = upper U (strip chosen) \<and>
         ((\<forall>c \<in> set (strip chosen). to_upper U c \<noteq> []) \<longrightarrow> cur \<noteq> []) \<and>
         (\<not> truthy (get (hd rows) (lit ''Payment currency'')) \<and>
          \<not> truthy (get (last rows) (lit ''Payment currency'')) \<longrightarrow> cur = lit ''EUR'') \<and>
         symbol = (if cur = lit ''EUR'' then [8364] else cur) \<and>
         rows \<noteq> [] \<and>
         getitem (last rows) (lit ''Date completed (UTC)'') = Inr (Some t) \<and>
         strptime U t = Inr od \<and>
         fmt_amount (parse_decimal U (get_default (last rows) (lit ''Balance'') (lit ''0''))) =
           Inr opening_str \<and>
         getitem (hd rows) (lit ''Date completed (UTC)'') = Inr (Some t') \<and>
         strptime U t' = Inr cd \<and>
         fmt_amount (parse_decimal U (get_default (hd rows) (lit ''Balance'') (lit ''0''))) =
           Inr closing_str \<and>
         length blocks = length rows \<and>
         (\<forall>i < length rows.
            tx_lines U (last rows) cur (rows ! (length rows - 1 - i)) = Inr (blocks ! i)) \<and>
         (\<forall>b \<in> set blocks. \<exists>pre. b = pre @ [lit ''~60'' @ symbol, lit ''~63'' @ symbol]) \<and>
         out =
         join [10]
           ([lit '':20:MT940'', lit '':25:/'' @ replace 32 [] iban, lit '':28C:1'',
             lit '':60F:C'' @ strftime_yymmdd od @ cur @ opening_str] @
            concat blocks @
            [lit '':62F:C'' @ strftime_yymmdd cd @ cur @ closing_str,
             lit '':64:C'' @ strftime_yymmdd (od\<lparr>day := days_in_month (year od) (month od)\<rparr>) @
               cur @ closing_str,
             lit ''-'']))"
proof -
  from assms(1,2) obtain ls where ne: "rows \<noteq> []"
    and ls: "statement_lines U rows iban = Inr ls" and out: "out = join [10] ls"
    by (auto simp: revolut_Inr)
  define chosen where "chosen =
             (case get (hd rows) (lit ''Payment currency'') of
                Some (c # cs) \<Rightarrow> c # cs
              | _ \<Rightarrow> (case get (last rows) (lit ''Payment currency'') of
                        Some (c # cs) \<Rightarrow> c # cs
                      | _ \<Rightarrow> lit ''EUR''))"
  define cur where "cur = upper U (strip chosen)"
  define symbol where "symbol = (if cur = lit ''EUR'' then [8364] else cur)"
  have cur: "cur = upper U (strip (or_str (py_or (get (hd rows) (lit ''Payment currency''))
                                                  (get (last rows) (lit ''Payment currency'')))
                                           (lit ''EUR'')))"
    unfolding cur_def chosen_def or_str_py_or ..
  from assms(3) have "strip chosen \<noteq> []" unfolding chosen_def .
  then have nonempty: "(\<forall>c \<in> set (strip chosen). to_upper U c \<noteq> []) \<longrightarrow> cur \<noteq> []"
    unfolding cur_def by (simp add: upper_not_empty)
  from ls obtain t od t' cd opening_str closing_str blocks where f:
    "getitem (last rows) (lit ''Date completed (UTC)'') = Inr (Some t)"
    "strptime U t = Inr od"
    "getitem (hd rows) (lit ''Date completed (UTC)'') = Inr (Some t')"
    "strptime U t' = Inr cd"
    "fmt_amount (parse_decimal U (get_default (last rows) (lit ''Balance'') (lit ''0''))) = Inr opening_str"
    "fmt_amount (parse_decimal U (get_default (hd rows) (lit ''Balance'') (lit ''0''))) = Inr closing_str"
    and blocks: "map (tx_lines U (last rows) cur) (rev rows) = map Inr blocks"
    and eq: "ls = [lit '':20:MT940'', lit '':25:/'' @ replace 32 [] iban, lit '':28C:1'',
               lit '':60F:C'' @ strftime_yymmdd od @ cur @ opening_str] @ concat blocks @
              [lit '':62F:C'' @ strftime_yymmdd cd @ cur @ closing_str,
               lit '':64:C'' @ strftime_yymmdd (od\<lparr>day := days_in_month (year od) (month od)\<rparr>) @
                 cur @ closing_str,
               lit ''-'']"
    unfolding cur by (rule statement_lines_Inr)
  from blocks have len: "length blocks = length rows"
    by (metis length_map length_rev)
  have nth: "tx_lines U (last rows) cur (rows ! (length rows - 1 - i)) = Inr (blocks ! i)"
    if "i < length rows" for i
  proof -
    have "map (tx_lines U (last rows) cur) (rev rows) ! i = map Inr blocks ! i"
      by (simp only: blocks)
    with that len have "tx_lines U (last rows) cur (rev rows ! i) = Inr (blocks ! i)"
      by simp
    with that show ?thesis by (simp add: rev_nth)
  qed
  have all: "\<forall>i < length rows.
          tx_lines U (last rows) cur (rows ! (length rows - 1 - i)) = Inr (blocks ! i)"
    using nth by blast
  have sym: "\<forall>b \<in> set blocks. \<exists>pre. b = pre @ [lit ''~60'' @ symbol, lit ''~63'' @ symbol]"
  proof
    fix b assume "b \<in> set blocks"
    then have "Inr b \<in> set (map (tx_lines U (last rows) cur) (rev rows))"
      unfolding blocks by simp
    then obtain tx where "tx_lines U (last rows) cur tx = Inr b" by auto
    then show "\<exists>pre. b = pre @ [lit ''~60'' @ symbol, lit ''~63'' @ symbol]"
      unfolding symbol_def by (rule tx_lines_symbol)
  qed
  have dflt: "\<not> truthy (get (hd rows) (lit ''Payment currency'')) \<and>
        \<not> truthy (get (last rows) (lit ''Payment currency'')) \<longrightarrow> cur = lit ''EUR''"
    unfolding cur by (simp add: or_str_default upper_strip_EUR)
  have out': "out = join [10]
             ([lit '':20:MT940'', lit '':25:/'' @ replace 32 [] iban, lit '':28C:1'',
               lit '':60F:C'' @ strftime_yymmdd od @ cur @ opening_str] @
              concat blocks @
              [lit '':62F:C'' @ strftime_yymmdd cd @ cur @ closing_str,
               lit '':64:C'' @ strftime_yymmdd (od\<lparr>day := days_in_month (year od) (month od)\<rparr>) @
                 cur @ closing_str,
               lit ''-''])"
    unfolding out eq ..
  from chosen_def cur_def nonempty dflt symbol_def ne f len all sym out'
  show ?thesis by blast
qed

text \<open>
  The claim fails at a record whose currency field is \<open>Euro\<close>: the code in the balance
  lines and in the two last lines of the block is \<open>EURO\<close>, of four letters.
\<close>

theorem four_letter_currency_counterexample:
  "revolut_to_mt940 ascii_tables
    (lit ''Date completed (UTC),Payment currency'' @ [10] @
     lit ''2024-01-15,Euro'' @ [10])
    (lit ''DE12'') =
   Inr (join [10]
      [lit '':20:MT940'',
       lit '':25:/DE12'',
       lit '':28C:1'',
       lit '':60F:C240115EURO0,00'',
       lit '':61:2401150115C0,00N119NONREF//'',
       lit ''119 0'',
       lit '':86:020~00119'',
       lit ''~60EURO'',
       lit ''~63EURO'',
       lit '':62F:C240115EURO0,00'',
       lit '':64:C240131EURO0,00'',
       lit ''-''])"
  by (rule run_four_letter_currency)

text \<open>The amended statement at a record whose currency field is \<open>usd\<close> after a space.\<close>

theorem currency_derivation_witness:
  "revolut_to_mt940 ascii_tables
    (lit ''Date completed (UTC),Payment currency'' @ [10] @
     lit ''2024-01-15, usd'' @ [10])
    (lit ''DE12'') =
   Inr (join [10]
      [lit '':20:MT940'',
       lit '':25:/DE12'',
       lit '':28C:1'',
       lit '':60F:C240115USD0,00'',
       lit '':61:2401150115C0,00N119NONREF//'',
       lit ''119 0'',
       lit '':86:020~00119'',
       lit ''~60USD'',
       lit ''~63USD'',
       lit '':62F:C240115USD0,00'',
       lit '':64:C240131USD0,00'',
       lit ''-'']) \<and>
   DictReader
    (lit ''Date completed (UTC),Payment currency'' @ [10] @
     lit ''2024-01-15, usd'' @ [10]) =
   Inr [make_row [lit ''Date completed (UTC)'', lit ''Payment currency''] [lit ''2024-01-15'', lit '' usd'']] \<and>
   strip (case get (hd [make_row [lit ''Date completed (UTC)'', lit ''Payment currency''] [lit ''2024-01-15'', lit '' usd'']])
                 (lit ''Payment currency'') of
            Some (c # cs) \<Rightarrow> c # cs
          | _ \<Rightarrow>
              (case get (last [make_row [lit ''Date completed (UTC)'', lit ''Payment currency''] [lit ''2024-01-15'', lit '' usd'']])
                      (lit ''Payment currency'') of
                 Some (c # cs) \<Rightarrow> c # cs
               | _ \<Rightarrow> lit ''EUR'')) \<noteq> [] \<and>
   (\<exists>chosen cur symbol t od opening_str t' cd closing_str blocks.
      chosen =
        (case get (hd [make_row [lit ''Date completed (UTC)'', lit ''Payment currency''] [lit ''2024-01-15'', lit '' usd'']]) (lit ''Payment currency'') of
           Some (c # cs) \<Rightarrow> c # cs
         | _ \<Rightarrow> (case get (last [make_row [lit ''Date completed (UTC)'', lit ''Payment currency''] [lit ''2024-01-15'', lit '' usd'']]) (lit ''Payment currency'') of
                   Some (c # cs) \<Rightarrow> c # cs
                 | _ \<Rightarrow> lit ''EUR'')) \<and>
      cur = upper ascii_tables (strip chosen) \<and>
      ((\<forall>c \<in> set (strip chosen). to_upper ascii_tables c \<noteq> []) \<longrightarrow> cur \<noteq> []) \<and>
      (\<not> truthy (get (hd [make_row [lit ''Date completed (UTC)'', lit ''Payment currency''] [lit ''2024-01-15'', lit '' usd'']]) (lit ''Payment currency'')) \<and>
       \<not> truthy (get (last [make_row [lit ''Date completed (UTC)'', lit ''Payment currency''] [lit ''2024-01-15'', lit '' usd'']]) (lit ''Payment currency'')) \<longrightarrow> cur = lit ''EUR'') \<and>
      symbol = (if cur = lit ''EUR'' then [8364] else cur) \<and>
      [make_row [lit ''Date completed (UTC)'', lit ''Payment currency''] [lit ''2024-01-15'', lit '' usd'']] \<noteq> [] \<and>
      getitem (last [make_row [lit ''Date completed (UTC)'', lit ''Payment currency''] [lit ''2024-01-15'', lit '' usd'']]) (lit ''Date completed (UTC)'') = Inr (Some t) \<and>
      strptime ascii_tables t = Inr od \<and>
      fmt_amount (parse_decimal ascii_tables (get_default (last [make_row [lit ''Date completed (UTC)'', lit ''Payment currency''] [lit ''2024-01-15'', lit '' usd'']]) (lit ''Balance'') (lit ''0''))) =
        Inr opening_str \<and>
      getitem (hd [make_row [lit ''Date completed (UTC)'', lit ''Payment currency''] [lit ''2024-01-15'', lit '' usd'']]) (lit ''Date completed (UTC)'') = Inr (Some t') \<and>
      strptime ascii_tables t' = Inr cd \<and>
      fmt_amount (parse_decimal ascii_tables (get_default (hd [make_row [lit ''Date completed (UTC)'', lit ''Payment currency''] [lit ''2024-01-15'', lit '' usd'']]) (lit ''Balance'') (lit ''0''))) =
        Inr closing_str \<and>
      length blocks = length [make_row [lit ''Date completed (UTC)'', lit ''Payment currency''] [lit ''2024-01-15'', lit '' usd'']] \<and>
      (\<forall>i < length [make_row [lit ''Date completed (UTC)'', lit ''Payment currency''] [lit ''2024-01-15'', lit '' usd'']].
         tx_lines ascii_tables (last [make_row [lit ''Date completed (UTC)'', lit ''Payment currency''] [lit ''2024-01-15'', lit '' usd'']]) cur ([make_row [lit ''Date completed (UTC)'', lit ''Payment currency''] [lit ''2024-01-15'', lit '' usd'']] ! (length [make_row [lit ''Date completed (UTC)'', lit ''Payment currency''] [lit ''2024-01-15'', lit '' usd'']] - 1 - i)) = Inr (blocks ! i)) \<and>
      (\<forall>b \<in> set blocks. \<exists>pre. b = pre @ [lit ''~60'' @ symbol, lit ''~63'' @ symbol]) \<and>
      (join [10]
      [lit '':20:MT940'',
       lit '':25:/DE12'',
       lit '':28C:1'',
       lit '':60F:C240115USD0,00'',
       lit '':61:2401150115C0,00N119NONREF//'',
       lit ''119 0'',
       lit '':86:020~00119'',
       lit ''~60USD'',
       lit ''~63USD'',
       lit '':62F:C240115USD0,00'',
       lit '':64:C240131USD0,00'',
       lit ''-'']) =
      join [10]
        ([lit '':20:MT940'', lit '':25:/'' @ replace 32 [] (lit ''DE12''), lit '':28C:1'',
          lit '':60F:C'' @ strftime_yymmdd od @ cur @ opening_str] @
         concat blocks @
         [lit '':62F:C'' @ strftime_yymmdd cd @ cur @ closing_str,
          lit '':64:C'' @ strftime_yymmdd (od\<lparr>day := days_in_month (year od) (month od)\<rparr>) @
            cur @ closing_str,
          lit ''-'']))"
proof -
  have "strip (case get (hd [make_row [lit ''Date completed (UTC)'', lit ''Payment currency''] [lit ''2024-01-15'', lit '' usd'']])
                     (lit ''Payment currency'') of
                Some (c # cs) \<Rightarrow> c # cs
              | _ \<Rightarrow>
                  (case get (last [make_row [lit ''Date completed (UTC)'', lit ''Payment currency''] [lit ''2024-01-15'', lit '' usd'']])
                          (lit ''Payment currency'') of
                     Some (c # cs) \<Rightarrow> c # cs
                   | _ \<Rightarrow> lit ''EUR'')) \<noteq> []"
    by (simp add: run_defs)
  from run_lower_case_currency rows_lower_case_currency this
    currency_derivation [OF run_lower_case_currency rows_lower_case_currency this]
  show ?thesis by (intro conjI)
qed

subsection \<open>C9: the account line\<close>

lemma run_tab_iban:
  "revolut_to_mt940 ascii_tables
    (lit ''Date completed (UTC)'' @ [10] @
     lit ''2024-01-15'' @ [10])
    (lit ''AB'' @ [9] @ lit ''C D'') =
   Inr (join [10]
      [lit '':20:MT940'',
       lit '':25:/AB'' @ [9] @ lit ''CD'',
       lit '':28C:1'',
       lit '':60F:C240115EUR0,00'',
       lit '':61:2401150115C0,00N119NONREF//'',
       lit ''119 0'',
       lit '':86:020~00119'',
       lit ''~60'' @ [8364],
       lit ''~63'' @ [8364],
       lit '':62F:C240115EUR0,00'',
       lit '':64:C240131EUR0,00'',
       lit ''-''])"
  by (simp add: run_defs)

text \<open>
  C9, amended. The second line of a statement that is produced is \<open>:25:/\<close> and the
  account identifier with every space character (U+0020) removed; every other character
  of the identifier, other white space such as a tab included, is kept, in its order.
  (The claim says every kind of white space; the source calls \<open>iban.replace(" ", "")\<close>,
  and its docstring says that spaces are removed.)
\<close>

theorem account_line_spaces_removed:
  assumes "revolut_to_mt940 U csv_content iban = Inr out"
  shows "\<exists>rest. out = lit '':20:MT940'' @ [10] @ lit '':25:/'' @ filter (\<lambda>c. c \<noteq> 32) iban @ [10] @ rest"
proof -
  from assms obtain rows ls where ls: "statement_lines U rows iban = Inr ls" and out: "out = join [10] ls"
    by (auto simp: revolut_Inr)
  from ls obtain l ls' where "ls = lit '':20:MT940'' # (lit '':25:/'' @ replace 32 [] iban) # l # ls'"
    by (rule statement_lines_Inr) simp
  with out show ?thesis by (simp add: replace_remove)
qed

text \<open>
  The claim fails at the identifier \<open>AB\<close>, a tab, \<open>C D\<close>: the space is removed and the
  tab stays in the account line.
\<close>

theorem tab_kept_counterexample:
  "revolut_to_mt940 ascii_tables
    (lit ''Date completed (UTC)'' @ [10] @
     lit ''2024-01-15'' @ [10])
    (lit ''AB'' @ [9] @ lit ''C D'') =
   Inr (join [10]
      [lit '':20:MT940'',
       lit '':25:/AB'' @ [9] @ lit ''CD'',
       lit '':28C:1'',
       lit '':60F:C240115EUR0,00'',
       lit '':61:2401150115C0,00N119NONREF//'',
       lit ''119 0'',
       lit '':86:020~00119'',
       lit ''~60'' @ [8364],
       lit ''~63'' @ [8364],
       lit '':62F:C240115EUR0,00'',
       lit '':64:C240131EUR0,00'',
       lit ''-'']) \<and>
   is_space 9"
  by (rule conjI [OF run_tab_iban]) (simp add: is_space_def)

text \<open>The amended statement at the same input.\<close>

theorem account_line_spaces_removed_witness:
  "revolut_to_mt940 ascii_tables
    (lit ''Date completed (UTC)'' @ [10] @
     lit ''2024-01-15'' @ [10])
    (lit ''AB'' @ [9] @ lit ''C D'') =
   Inr (join [10]
      [lit '':20:MT940'',
       lit '':25:/AB'' @ [9] @ lit ''CD'',
       lit '':28C:1'',
       lit '':60F:C240115EUR0,00'',
       lit '':61:2401150115C0,00N119NONREF//'',
       lit ''119 0'',
       lit '':86:020~00119'',
       lit ''~60'' @ [8364],
       lit ''~63'' @ [8364],
       lit '':62F:C240115EUR0,00'',
       lit '':64:C240131EUR0,00'',
       lit ''-'']) \<and>
   (\<exists>rest. join [10]
      [lit '':20:MT940'',
       lit '':25:/AB'' @ [9] @ lit ''CD'',
       lit '':28C:1'',
       lit '':60F:C240115EUR0,00'',
       lit '':61:2401150115C0,00N119NONREF//'',
       lit ''119 0'',
       lit '':86:020~00119'',
       lit ''~60'' @ [8364],
       lit ''~63'' @ [8364],
       lit '':62F:C240115EUR0,00'',
       lit '':64:C240131EUR0,00'',
       lit ''-''] =
      lit '':20:MT940'' @ [10] @ lit '':25:/'' @ filter (\<lambda>c. c \<noteq> 32) (lit ''AB'' @ [9] @ lit ''C D'') @
      [10] @ rest)"
  by (rule conjI [OF run_tab_iban account_line_spaces_removed [OF run_tab_iban]])

subsection \<open>C10: two lines with the tag of the third description line\<close>

lemma run_blank_beneficiary:
  "revolut_to_mt940 ascii_tables
    (lit ''Date completed (UTC),Description,Beneficiary IBAN'' @ [10] @
     lit ''2024-01-15,Payment for the invoice 2024-001 of the first quarter and the delivery fee, '' @ [10])
    (lit ''DE12'') =
   Inr (join [10]
      [lit '':20:MT940'',
       lit '':25:/DE12'',
       lit '':28C:1'',
       lit '':60F:C240115EUR0,00'',
       lit '':61:2401150115C0,00N119NONREF//'',
       lit ''119 0'',
       lit '':86:020~00119'',
       lit ''~32Payment for the invoice 2024-001 of'',
       lit ''~33 the first quarter and the delivery'',
       lit ''~38 fee'',
       lit ''~60'' @ [8364],
       lit ''~63'' @ [8364],
       lit '':62F:C240115EUR0,00'',
       lit '':64:C240131EUR0,00'',
       lit ''-''])"
  by (simp add: run_defs)

lemma block_long_description:
  "tx_lines ascii_tables
     (make_row
       [lit ''Date completed (UTC)'',
         lit ''Description'',
         lit ''Beneficiary IBAN'']
       [lit ''2024-01-15'',
         lit ''Payment for the invoice 2024-001 of the first quarter and the delivery fee'',
         lit ''DE89 3704 0044''])
     (lit ''EUR'')
     (make_row
       [lit ''Date completed (UTC)'',
         lit ''Description'',
         lit ''Beneficiary IBAN'']
       [lit ''2024-01-15'',
         lit ''Payment for the invoice 2024-001 of the first quarter and the delivery fee'',
         lit ''DE89 3704 0044'']) =
   Inr [lit '':61:2401150115C0,00N119NONREF//'',
       lit ''119 0'',
       lit '':86:020~00119'',
       lit ''~32Payment for the invoice 2024-001 of'',
       lit ''~33 the first quarter and the delivery'',
       lit ''~38 fee'',
       lit ''~38DE8937040044'',
       lit ''~60'' @ [8364],
       lit ''~63'' @ [8364]]"
  by (simp add: run_defs)

text \<open>
  C10, amended. For a record whose normalised description (trimmed, carriage returns and
  newlines replaced by spaces, trimmed again) is longer than 70 characters and whose field
  \<open>Beneficiary IBAN\<close> is not empty after trimming, the block that is produced has two
  lines in a row with the same tag \<open>~38\<close>: the first carries the description from its
  71st character on, which is the third and later chunks joined, the second the trimmed
  beneficiary identifier with its spaces removed. (The claim asks only for a non-empty
  field; the source trims the field before it tests it, so a field of white space gives no
  second line.)
\<close>

theorem tertiary_tag_twice:
  assumes "tx_lines U first_row cur tx = Inr ls"
  defines "description \<equiv> strip (replace 10 [32] (replace 13 [32]
                             (strip (or_str (get tx (lit ''Description'')) []))))"
    and "ben_iban \<equiv> strip (or_str (get tx (lit ''Beneficiary IBAN'')) [])"
  assumes "length description > 70" and "ben_iban \<noteq> []"
  shows "\<exists>pre post. ls = pre @ [lit ''~38'' @ drop 70 description,
                                lit ''~38'' @ filter (\<lambda>c. c \<noteq> 32) ben_iban] @ post"
proof -
  from assms(1) obtain A B C D chunks post where
    ch: "split_text_chunks (strip (or_str (get tx (lit ''Description'')) [])) 35 = Inr chunks"
    and ls: "ls = A @ B @ C @ D @
              (if length chunks > 2 then [lit ''~38'' @ concat (drop 2 chunks)] else []) @
              (if ben_iban \<noteq> [] then [lit ''~38'' @ filter (\<lambda>c. c \<noteq> 32) ben_iban] else []) @
              post"
    unfolding ben_iban_def by (rule tx_lines_Inr)
  from chunks_beyond_two [OF ch] assms(4) have "length chunks > 2"
    and "concat (drop 2 chunks) = drop 70 description"
    unfolding description_def by simp_all
  with ls assms(5) have "ls = (A @ B @ C @ D) @ [lit ''~38'' @ drop 70 description,
                                lit ''~38'' @ filter (\<lambda>c. c \<noteq> 32) ben_iban] @ post"
    by simp
  then show ?thesis by blast
qed

text \<open>
  The claim fails at a record with a description of 74 characters and a beneficiary field
  that is one space: the field is not empty, and the block has the line \<open>~38\<close> of the
  description only.
\<close>

theorem blank_beneficiary_counterexample:
  "revolut_to_mt940 ascii_tables
    (lit ''Date completed (UTC),Description,Beneficiary IBAN'' @ [10] @
     lit ''2024-01-15,Payment for the invoice 2024-001 of the first quarter and the delivery fee, '' @ [10])
    (lit ''DE12'') =
   Inr (join [10]
      [lit '':20:MT940'',
       lit '':25:/DE12'',
       lit '':28C:1'',
       lit '':60F:C240115EUR0,00'',
       lit '':61:2401150115C0,00N119NONREF//'',
       lit ''119 0'',
       lit '':86:020~00119'',
       lit ''~32Payment for the invoice 2024-001 of'',
       lit ''~33 the first quarter and the delivery'',
       lit ''~38 fee'',
       lit ''~60'' @ [8364],
       lit ''~63'' @ [8364],
       lit '':62F:C240115EUR0,00'',
       lit '':64:C240131EUR0,00'',
       lit ''-''])"
  by (rule run_blank_beneficiary)

text \<open>
  The amended statement at a record with the same description and the beneficiary
  \<open>DE89 3704 0044\<close>.
\<close>

theorem tertiary_tag_twice_witness:
  "tx_lines ascii_tables
     (make_row
       [lit ''Date completed (UTC)'',
         lit ''Description'',
         lit ''Beneficiary IBAN'']
       [lit ''2024-01-15'',
         lit ''Payment for the invoice 2024-001 of the first quarter and the delivery fee'',
         lit ''DE89 3704 0044''])
     (lit ''EUR'')
     (make_row
       [lit ''Date completed (UTC)'',
         lit ''Description'',
         lit ''Beneficiary IBAN'']
       [lit ''2024-01-15'',
         lit ''Payment for the invoice 2024-001 of the first quarter and the delivery fee'',
         lit ''DE89 3704 0044'']) =
   Inr [lit '':61:2401150115C0,00N119NONREF//'',
       lit ''119 0'',
       lit '':86:020~00119'',
       lit ''~32Payment for the invoice 2024-001 of'',
       lit ''~33 the first quarter and the delivery'',
       lit ''~38 fee'',
       lit ''~38DE8937040044'',
       lit ''~60'' @ [8364],
       lit ''~63'' @ [8364]] \<and>
   70 < length (strip (replace 10 [32] (replace 13 [32]
          (strip (or_str (get (make_row
       [lit ''Date completed (UTC)'',
         lit ''Description'',
         lit ''Beneficiary IBAN'']
       [lit ''2024-01-15'',
         lit ''Payment for the invoice 2024-001 of the first quarter and the delivery fee'',
         lit ''DE89 3704 0044'']) (lit ''Description'')) []))))) \<and>
   strip (or_str (get (make_row
       [lit ''Date completed (UTC)'',
         lit ''Description'',
         lit ''Beneficiary IBAN'']
       [lit ''2024-01-15'',
         lit ''Payment for the invoice 2024-001 of the first quarter and the delivery fee'',
         lit ''DE89 3704 0044'']) (lit ''Beneficiary IBAN'')) []) \<noteq> [] \<and>
   (\<exists>pre post.
      [lit '':61:2401150115C0,00N119NONREF//'',
       lit ''119 0'',
       lit '':86:020~00119'',
       lit ''~32Payment for the invoice 2024-001 of'',
       lit ''~33 the first quarter and the delivery'',
       lit ''~38 fee'',
       lit ''~38DE8937040044'',
       lit ''~60'' @ [8364],
       lit ''~63'' @ [8364]] =
      pre @
      [lit ''~38'' @
       drop 70 (strip (replace 10 [32] (replace 13 [32]
          (strip (or_str (get (make_row
       [lit ''Date completed (UTC)'',
         lit ''Description'',
         lit ''Beneficiary IBAN'']
       [lit ''2024-01-15'',
         lit ''Payment for the invoice 2024-001 of the first quarter and the delivery fee'',
         lit ''DE89 3704 0044'']) (lit ''Description'')) []))))),
       lit ''~38'' @
       filter (\<lambda>c. c \<noteq> 32)
         (strip (or_str (get (make_row
       [lit ''Date completed (UTC)'',
         lit ''Description'',
         lit ''Beneficiary IBAN'']
       [lit ''2024-01-15'',
         lit ''Payment for the invoice 2024-001 of the first quarter and the delivery fee'',
         lit ''DE89 3704 0044'']) (lit ''Beneficiary IBAN'')) []))] @
      post)"
proof -
  have a: "70 < length (strip (replace 10 [32] (replace 13 [32]
          (strip (or_str (get (make_row
       [lit ''Date completed (UTC)'',
         lit ''Description'',
         lit ''Beneficiary IBAN'']
       [lit ''2024-01-15'',
         lit ''Payment for the invoice 2024-001 of the first quarter and the delivery fee'',
         lit ''DE89 3704 0044'']) (lit ''Description'')) [])))))"
    by (simp add: run_defs)
  have b: "strip (or_str (get (make_row
       [lit ''Date completed (UTC)'',
         lit ''Description'',
         lit ''Beneficiary IBAN'']
       [lit ''2024-01-15'',
         lit ''Payment for the invoice 2024-001 of the first quarter and the delivery fee'',
         lit ''DE89 3704 0044'']) (lit ''Beneficiary IBAN'')) []) \<noteq> []"
    by (simp add: run_defs)
  from block_long_description a b tertiary_tag_twice [OF block_long_description a b]
  show ?thesis by (intro conjI)
qed

end
